theory Spec2Isabelle
  imports Complex_Main "HOL-Library.Multiset"
begin

section \<open>Cognitive tasks: data model (CognitiveTasks.tsx, services/api.ts)\<close>

text \<open>
  JavaScript numbers that hold times and scores are modelled by exact reals; option
  indices are integers (\<open>indexOf\<close> may return \<open>-1\<close>); the error counter of a task
  state is only ever \<open>0\<close> or a loop counter, hence a natural number. A field that may be
  \<open>undefined\<close> or \<open>null\<close> is an \<open>option\<close>.
\<close>

datatype TaskType = WordRecall | DigitSpan | Tapping | ClockDrawing | Attention

record CognitiveTask =
  task_id :: string
  task_type :: TaskType
  title :: string
  description :: string
  prompt :: string
  options :: "string list option"
  correctAnswer :: "int option"
  durationMs :: "real option"
  sequenceAnswer :: "int list option"

record TaskState =
  startTime :: "real option"
  responseTimeMs :: real
  correct :: "bool option"
  errors :: nat
  selectedOption :: "int option"
  freeResponse :: "string option"
  sequence :: "int list option"

datatype LogTaskType = Speech | Cognitive

record Metadata =
  expectedSequence :: "int list"
  selectedSequence :: "int list"

record InteractionLog =
  taskId :: string
  taskType :: LogTaskType
  log_prompt :: string
  log_responseTimeMs :: real
  log_correct :: "bool option"
  log_errors :: "nat option"
  metadata :: "Metadata option"

record CognitiveScores =
  memoryScore :: real
  attentionScore :: real
  languageScore :: real
  executiveScore :: real

record CognitiveCompletionPayload =
  logs :: "InteractionLog list"
  scores :: CognitiveScores
  clockDrawing :: "string option"

type_synonym TaskStates = "string \<rightharpoonup> TaskState"

section \<open>Assembling the submission (handleFinish)\<close>

text \<open>The body of \<open>tasks.map((task) => ...)\<close>: one log per task.\<close>

definition make_log :: "TaskStates \<Rightarrow> CognitiveTask \<Rightarrow> InteractionLog" where
  "make_log taskStates task =
     (let state = taskStates (task_id task);
          md = (case sequenceAnswer task of
                  Some expected \<Rightarrow>
                    Some \<lparr> expectedSequence = expected,
                           selectedSequence =
                             (case state of
                                None \<Rightarrow> []
                              | Some s \<Rightarrow> (case sequence s of None \<Rightarrow> [] | Some q \<Rightarrow> q)) \<rparr>
                | None \<Rightarrow> None)
      in \<lparr> taskId = task_id task,
           taskType = Cognitive,
           log_prompt = prompt task,
           log_responseTimeMs = (case state of None \<Rightarrow> 0 | Some s \<Rightarrow> responseTimeMs s),
           log_correct = (case state of None \<Rightarrow> None | Some s \<Rightarrow> correct s),
           log_errors = (case state of None \<Rightarrow> None | Some s \<Rightarrow> Some (errors s)),
           metadata = md \<rparr>)"

text \<open>
  \<open>baseScore = state?.correct ? 1 : 0\<close>, \<open>penalty = (state?.errors ?? 0) * 0.1\<close>,
  \<open>adjustedScore = Math.max(0, baseScore - penalty)\<close>.
\<close>

definition baseScore :: "TaskState option \<Rightarrow> real" where
  "baseScore state =
     (case state of
        None \<Rightarrow> 0
      | Some s \<Rightarrow> (if correct s = Some True then 1 else 0))"

definition penalty :: "TaskState option \<Rightarrow> real" where
  "penalty state = real (case state of None \<Rightarrow> 0 | Some s \<Rightarrow> errors s) * (1 / 10)"

definition adjustedScore :: "TaskState option \<Rightarrow> real" where
  "adjustedScore state = max 0 (baseScore state - penalty state)"

text \<open>The reducer of \<open>tasks.reduce\<close>: four independent \<open>if\<close> statements.\<close>

definition score_step :: "TaskStates \<Rightarrow> CognitiveScores \<Rightarrow> CognitiveTask \<Rightarrow> CognitiveScores" where
  "score_step taskStates acc task =
     (let a = adjustedScore (taskStates (task_id task));
          acc1 = (if task_type task = WordRecall
                  then acc\<lparr>memoryScore := memoryScore acc + a\<rparr> else acc);
          acc2 = (if task_type task = DigitSpan \<or> task_type task = Attention
                  then acc1\<lparr>attentionScore := attentionScore acc1 + a\<rparr> else acc1);
          acc3 = (if task_type task = ClockDrawing
                  then acc2\<lparr>executiveScore := executiveScore acc2 + a\<rparr> else acc2);
          acc4 = (if task_type task = Tapping
                  then acc3\<lparr>languageScore := languageScore acc3 + a\<rparr> else acc3)
      in acc4)"

definition zero_scores :: CognitiveScores where
  "zero_scores = \<lparr> memoryScore = 0, attentionScore = 0, languageScore = 0, executiveScore = 0 \<rparr>"

definition compute_scores :: "TaskStates \<Rightarrow> CognitiveTask list \<Rightarrow> CognitiveScores" where
  "compute_scores taskStates tasks = foldl (score_step taskStates) zero_scores tasks"

text \<open>
  \<open>tasks.find((t) => t.type === "clock-drawing")\<close> and then
  \<open>clock ? taskStates[clock.id]?.freeResponse : undefined\<close>.
\<close>

definition clock_response :: "TaskStates \<Rightarrow> CognitiveTask list \<Rightarrow> string option" where
  "clock_response taskStates tasks =
     (case find (\<lambda>t. task_type t = ClockDrawing) tasks of
        None \<Rightarrow> None
      | Some clock \<Rightarrow>
          (case taskStates (task_id clock) of None \<Rightarrow> None | Some s \<Rightarrow> freeResponse s))"

text \<open>The payload that \<open>handleFinish\<close> hands to \<open>onComplete\<close>.\<close>

definition handleFinish :: "CognitiveTask list \<Rightarrow> TaskStates \<Rightarrow> CognitiveCompletionPayload" where
  "handleFinish tasks taskStates =
     \<lparr> logs = map (make_log taskStates) tasks,
       scores = compute_scores taskStates tasks,
       clockDrawing = clock_response taskStates tasks \<rparr>"

text \<open>
  The attribution table as the specification words it: the share of one task in each
  domain total.
\<close>

definition memory_part :: "TaskStates \<Rightarrow> CognitiveTask \<Rightarrow> real" where
  "memory_part ts t = (if task_type t = WordRecall then adjustedScore (ts (task_id t)) else 0)"

definition attention_part :: "TaskStates \<Rightarrow> CognitiveTask \<Rightarrow> real" where
  "attention_part ts t =
     (if task_type t = DigitSpan \<or> task_type t = Attention
      then adjustedScore (ts (task_id t)) else 0)"

definition executive_part :: "TaskStates \<Rightarrow> CognitiveTask \<Rightarrow> real" where
  "executive_part ts t = (if task_type t = ClockDrawing then adjustedScore (ts (task_id t)) else 0)"

definition language_part :: "TaskStates \<Rightarrow> CognitiveTask \<Rightarrow> real" where
  "language_part ts t = (if task_type t = Tapping then adjustedScore (ts (task_id t)) else 0)"

section \<open>Cognitive task state machine (CognitiveTasks.tsx)\<close>

text \<open>
  Reading a JavaScript array at a position outside it gives \<open>undefined\<close>; a number is
  falsy exactly when it is \<open>null\<close>, \<open>undefined\<close> or zero.
\<close>

definition js_index :: "'a list \<Rightarrow> nat \<Rightarrow> 'a option" where
  "js_index xs i = (if i < length xs then Some (xs ! i) else None)"

definition truthy_time :: "real option \<Rightarrow> bool" where
  "truthy_time t = (case t of None \<Rightarrow> False | Some v \<Rightarrow> v \<noteq> 0)"

text \<open>\<open>taskStates[id]?.startTime\<close> used as a condition.\<close>

definition started :: "TaskStates \<Rightarrow> string \<Rightarrow> bool" where
  "started ts i = (case ts i of None \<Rightarrow> False | Some s \<Rightarrow> truthy_time (startTime s))"

text \<open>
  The component state: the three \<open>useState\<close> cells, and the titles of the toasts shown
  so far. Every handler below is the state transformer of one user event; the clock
  readings \<open>performance.now()\<close> it makes are arguments.
\<close>

record CogState =
  currentIndex :: nat
  taskStates :: TaskStates
  isFinished :: bool
  toasts :: "string list"

definition init_cog :: CogState where
  "init_cog = \<lparr> currentIndex = 0, taskStates = Map.empty, isFinished = False, toasts = [] \<rparr>"

definition fresh_state :: TaskState where
  "fresh_state =
     \<lparr> startTime = None, responseTimeMs = 0, correct = None, errors = 0,
       selectedOption = None, freeResponse = None, sequence = None \<rparr>"

text \<open>\<open>prev[taskId] ?? { startTime: null, responseTimeMs: 0, correct: null, errors: 0 }\<close>\<close>

definition state_or_fresh :: "TaskStates \<Rightarrow> string \<Rightarrow> TaskState" where
  "state_or_fresh ts i = (case ts i of None \<Rightarrow> fresh_state | Some s \<Rightarrow> s)"

definition startTaskTimer :: "string \<Rightarrow> real \<Rightarrow> CogState \<Rightarrow> CogState" where
  "startTaskTimer i now st =
     st\<lparr> taskStates := (taskStates st)(i \<mapsto> (state_or_fresh (taskStates st) i)\<lparr> startTime := Some now \<rparr>) \<rparr>"

text \<open>
  \<open>Partial<TaskState>\<close> as the callers build it: a key is either absent (\<open>None\<close>) or
  present with its value; \<open>correct\<close> may be present with the value \<open>null\<close>.
\<close>

record Overrides =
  ov_responseTimeMs :: "real option"
  ov_correct :: "bool option option"
  ov_errors :: "nat option"
  ov_selectedOption :: "int option"

definition no_overrides :: Overrides where
  "no_overrides = \<lparr> ov_responseTimeMs = None, ov_correct = None, ov_errors = None,
                     ov_selectedOption = None \<rparr>"

text \<open>\<open>{ ...currentState, ...overrides, startTime: null, responseTimeMs }\<close>\<close>

definition completed_state :: "TaskState \<Rightarrow> Overrides \<Rightarrow> real \<Rightarrow> TaskState" where
  "completed_state cur ov now =
     cur\<lparr> correct := (case ov_correct ov of None \<Rightarrow> correct cur | Some c \<Rightarrow> c),
          errors := (case ov_errors ov of None \<Rightarrow> errors cur | Some e \<Rightarrow> e),
          selectedOption := (case ov_selectedOption ov of
                               None \<Rightarrow> selectedOption cur | Some i \<Rightarrow> Some i),
          startTime := None,
          responseTimeMs := (case ov_responseTimeMs ov of
                               Some r \<Rightarrow> r
                             | None \<Rightarrow> now - (case startTime cur of Some t \<Rightarrow> t | None \<Rightarrow> 0)) \<rparr>"

text \<open>
  \<open>completeTask\<close>: the state update returns \<open>prev\<close> when the task has no state or no
  truthy start time; the pointer then advances, or the finished flag is set, in either
  case. \<open>tasks.length - 1\<close> is \<open>-1\<close> for an empty list, hence the integers.
\<close>

definition completeTask :: "CognitiveTask list \<Rightarrow> string \<Rightarrow> Overrides \<Rightarrow> real \<Rightarrow> CogState \<Rightarrow> CogState" where
  "completeTask tasks i ov now st =
     (let ts = taskStates st;
          ts' = (case ts i of
                   None \<Rightarrow> ts
                 | Some cur \<Rightarrow>
                     if \<not> truthy_time (startTime cur) then ts
                     else ts(i \<mapsto> completed_state cur ov now));
          st' = st\<lparr> taskStates := ts' \<rparr>
      in if int (currentIndex st) < int (length tasks) - 1
         then st'\<lparr> currentIndex := currentIndex st + 1 \<rparr>
         else st'\<lparr> isFinished := True \<rparr>)"

text \<open>\<open>seq.includes(optionIndex)\<close> is list membership.\<close>

definition handleOptionSelect :: "CognitiveTask list \<Rightarrow> CognitiveTask \<Rightarrow> int \<Rightarrow> real \<Rightarrow> CogState \<Rightarrow> CogState" where
  "handleOptionSelect tasks task optionIndex now st =
     (if \<not> started (taskStates st) (task_id task)
      then st\<lparr> toasts := toasts st @ [''Start the task first''] \<rparr>
      else
        (case (sequenceAnswer task, options task) of
           (Some expected, Some opts) \<Rightarrow>
             (let cur = state_or_fresh (taskStates st) (task_id task);
                  seq = (case sequence cur of None \<Rightarrow> [] | Some q \<Rightarrow> q)
              in if optionIndex \<in> set seq \<or> length seq \<ge> length expected
                 then st
                 else st\<lparr> taskStates :=
                        (taskStates st)(task_id task \<mapsto> cur\<lparr> sequence := Some (seq @ [optionIndex]) \<rparr>) \<rparr>)
         | _ \<Rightarrow>
             (let isCorrect = (case correctAnswer task of
                                 Some c \<Rightarrow> Some (optionIndex = c)
                               | None \<Rightarrow> None);
                  cur = state_or_fresh (taskStates st) (task_id task);
                  st1 = st\<lparr> taskStates :=
                          (taskStates st)(task_id task \<mapsto>
                             cur\<lparr> selectedOption := Some optionIndex, correct := isCorrect \<rparr>) \<rparr>
              in completeTask tasks (task_id task)
                   (no_overrides\<lparr> ov_correct := Some isCorrect,
                                  ov_selectedOption := Some optionIndex \<rparr>) now st1)))"

text \<open>\<open>taskStates[id]?.sequence ?? []\<close>\<close>

definition selected_seq :: "TaskStates \<Rightarrow> string \<Rightarrow> int list" where
  "selected_seq ts i =
     (case ts i of
        None \<Rightarrow> []
      | Some s \<Rightarrow> (case sequence s of None \<Rightarrow> [] | Some q \<Rightarrow> q))"

text \<open>
  The loop of the Complete button,
  \<open>for (let i = 0; i < len; i++) if (expected[i] !== seq[i]) mismatches++\<close>.
\<close>

function mismatch_loop :: "int list \<Rightarrow> int list \<Rightarrow> nat \<Rightarrow> nat \<Rightarrow> nat \<Rightarrow> nat" where
  "mismatch_loop expected seq len i mismatches =
     (if i < len
      then mismatch_loop expected seq len (i + 1)
             (if js_index expected i \<noteq> js_index seq i then mismatches + 1 else mismatches)
      else mismatches)"
  by pat_completeness auto
termination
  by (relation "measure (\<lambda>(expected, seq, len, i, mismatches). len - i)") auto

declare mismatch_loop.simps [simp del]

definition count_mismatches :: "int list \<Rightarrow> int list \<Rightarrow> nat" where
  "count_mismatches expected seq = mismatch_loop expected seq (max (length expected) (length seq)) 0 0"

text \<open>
  The Complete button. It is disabled for a task with a sequence answer or with options
  until the task has been started. The first clock reading is the one a timer started
  here would take, the second the one \<open>completeTask\<close> takes.
\<close>

definition complete_disabled :: "CognitiveTask \<Rightarrow> CogState \<Rightarrow> bool" where
  "complete_disabled task st =
     (if sequenceAnswer task \<noteq> None \<or> (case options task of None \<Rightarrow> False | Some os \<Rightarrow> length os > 0)
      then \<not> started (taskStates st) (task_id task)
      else False)"

definition completeClick :: "CognitiveTask list \<Rightarrow> CognitiveTask \<Rightarrow> real \<Rightarrow> real \<Rightarrow> CogState \<Rightarrow> CogState" where
  "completeClick tasks task now1 now2 st =
     (case sequenceAnswer task of
        Some expected \<Rightarrow>
          (let seq = selected_seq (taskStates st) (task_id task);
               mismatches = count_mismatches expected seq;
               isCorrect = (mismatches = 0 \<and> length seq = length expected)
           in completeTask tasks (task_id task)
                (no_overrides\<lparr> ov_correct := Some (Some isCorrect), ov_errors := Some mismatches \<rparr>)
                now2 st)
      | None \<Rightarrow>
          (let noInput = (case options task of None \<Rightarrow> True | Some os \<Rightarrow> length os = 0);
               st1 = (if noInput \<and> \<not> started (taskStates st) (task_id task)
                      then startTaskTimer (task_id task) now1 st else st);
               markCorrect = (if task_type task = ClockDrawing
                              then no_overrides\<lparr> ov_correct := Some (Some True) \<rparr>
                              else no_overrides)
           in completeTask tasks (task_id task) markCorrect now2 st1))"

text \<open>
  The Undo button is rendered for a task with a sequence answer whose state holds a
  non-empty selection; its handler drops the last element (\<open>next.pop()\<close>).
\<close>

definition undoClick :: "CognitiveTask \<Rightarrow> CogState \<Rightarrow> CogState" where
  "undoClick task st =
     (case taskStates st (task_id task) of
        None \<Rightarrow> st
      | Some cur \<Rightarrow>
          (case sequence cur of
             None \<Rightarrow> st
           | Some q \<Rightarrow>
               if sequenceAnswer task = None \<or> length q = 0 then st
               else st\<lparr> taskStates :=
                      (taskStates st)(task_id task \<mapsto> cur\<lparr> sequence := Some (butlast q) \<rparr>) \<rparr>))"

text \<open>
  An option button exists for every position of \<open>options\<close>; it is disabled until the task
  has been started, and for a sequence task once its index has been chosen.
\<close>

definition option_disabled :: "CognitiveTask \<Rightarrow> int \<Rightarrow> CogState \<Rightarrow> bool" where
  "option_disabled task index st =
     (\<not> started (taskStates st) (task_id task) \<or>
      (if sequenceAnswer task \<noteq> None
       then index \<in> set (selected_seq (taskStates st) (task_id task))
       else False))"

definition freeResponseChange :: "CognitiveTask \<Rightarrow> string \<Rightarrow> CogState \<Rightarrow> CogState" where
  "freeResponseChange task txt st =
     st\<lparr> taskStates :=
          (taskStates st)(task_id task \<mapsto>
             (state_or_fresh (taskStates st) (task_id task))\<lparr> freeResponse := Some txt \<rparr>) \<rparr>"

text \<open>
  The events a user can raise on the rendered component. Nothing is rendered when there
  is no current task; the Begin button is disabled once the task has been started; the
  text area exists for the clock-drawing task only.
\<close>

datatype event =
    Begin real
  | Select int real
  | Undo
  | Complete real real
  | TypeText string

definition step :: "CognitiveTask list \<Rightarrow> CogState \<Rightarrow> event \<Rightarrow> CogState" where
  "step tasks st ev =
     (case js_index tasks (currentIndex st) of
        None \<Rightarrow> st
      | Some task \<Rightarrow>
          (case ev of
             Begin now \<Rightarrow>
               if started (taskStates st) (task_id task) then st
               else startTaskTimer (task_id task) now st
           | Select index now \<Rightarrow>
               (case options task of
                  None \<Rightarrow> st
                | Some os \<Rightarrow>
                    if 0 \<le> index \<and> index < int (length os) \<and> \<not> option_disabled task index st
                    then handleOptionSelect tasks task index now st
                    else st)
           | Undo \<Rightarrow> undoClick task st
           | Complete now1 now2 \<Rightarrow>
               if complete_disabled task st then st
               else completeClick tasks task now1 now2 st
           | TypeText txt \<Rightarrow>
               if task_type task = ClockDrawing then freeResponseChange task txt st else st))"

definition run :: "CognitiveTask list \<Rightarrow> CogState \<Rightarrow> event list \<Rightarrow> CogState" where
  "run tasks st evs = foldl (step tasks) st evs"

text \<open>
  The specification's wording of the comparison at completion: the positions below the
  longer of the two lengths at which the two lists differ, a missing position differing
  from a present one.
\<close>

definition spec_mismatches :: "int list \<Rightarrow> int list \<Rightarrow> nat" where
  "spec_mismatches expected seq =
     length (filter (\<lambda>i. js_index expected i \<noteq> js_index seq i)
               [0 ..< max (length expected) (length seq)])"

text \<open>
  The bound on selections: every recorded selection of a sequence task of the list is
  duplicate-free and no longer than the expected permutation.
\<close>

definition selection_ok :: "CognitiveTask \<Rightarrow> TaskState \<Rightarrow> bool" where
  "selection_ok task s =
     (case sequenceAnswer task of
        None \<Rightarrow> True
      | Some expected \<Rightarrow>
          (case sequence s of
             None \<Rightarrow> True
           | Some q \<Rightarrow> distinct q \<and> length q \<le> length expected))"

definition selections_ok :: "CognitiveTask list \<Rightarrow> CogState \<Rightarrow> bool" where
  "selections_ok tasks st =
     list_all (\<lambda>task. case taskStates st (task_id task) of
                         None \<Rightarrow> True
                       | Some s \<Rightarrow> selection_ok task s) tasks"

text \<open>Concrete data used to run the definitions.\<close>

definition demo_word_task :: CognitiveTask where
  "demo_word_task =
     \<lparr> task_id = ''word-recall'', task_type = WordRecall, title = ''Word Recall'',
       description = ''Remember the list of words and tap them in the same order after Begin.'',
       prompt = ''Remember the words: Moon, Apple.'',
       options = Some [''Apple'', ''Moon''], correctAnswer = None, durationMs = None,
       sequenceAnswer = Some [1, 0] \<rparr>"

definition demo_attention_task :: CognitiveTask where
  "demo_attention_task =
     \<lparr> task_id = ''attention-sequence'', task_type = Attention, title = ''Attention Pattern'',
       description = ''Continue the color sequence.'',
       prompt = ''Red, Blue, Red, Blue, ?'',
       options = Some [''Red'', ''Blue'', ''Green''], correctAnswer = Some 0, durationMs = None,
       sequenceAnswer = None \<rparr>"

definition demo_clock_task :: CognitiveTask where
  "demo_clock_task =
     \<lparr> task_id = ''clock-drawing'', task_type = ClockDrawing, title = ''Clock Drawing'',
       description = ''Imagine drawing a clock showing the time 10 past 11.'',
       prompt = ''Picture a clock.'',
       options = None, correctAnswer = None, durationMs = None,
       sequenceAnswer = None \<rparr>"

definition done_word_state :: TaskState where
  "done_word_state = fresh_state\<lparr> responseTimeMs := 4200, correct := Some True,
                                 sequence := Some [1, 0] \<rparr>"

definition many_errors_state :: TaskState where
  "many_errors_state = fresh_state\<lparr> correct := Some True, errors := 12 \<rparr>"

definition demo_states :: TaskStates where
  "demo_states = [''word-recall'' \<mapsto> done_word_state]"

definition active_word_cog :: CogState where
  "active_word_cog =
     init_cog\<lparr> taskStates := [''word-recall'' \<mapsto> fresh_state\<lparr> startTime := Some 1000, sequence := Some [1, 0] \<rparr>] \<rparr>"

definition demo_tasks :: "CognitiveTask list" where
  "demo_tasks = [demo_word_task, demo_attention_task, demo_clock_task]"

definition demo_events :: "event list" where
  "demo_events = [Begin 1000, Select 1 1500, Select 1 1600, Select 0 1700, Select 0 1800, Undo]"

section \<open>Task catalog: generated tasks (Assessment page)\<close>

text \<open>
  \<open>xs.indexOf(x)\<close>: the position of the first element equal to \<open>x\<close>, or \<open>-1\<close>;
  \<open>xs[i]\<close> for a number \<open>i\<close> that may be negative.
\<close>

fun indexOf_from :: "'a list \<Rightarrow> 'a \<Rightarrow> int \<Rightarrow> int" where
  "indexOf_from [] x k = - 1"
| "indexOf_from (y # ys) x k = (if y = x then k else indexOf_from ys x (k + 1))"

definition indexOf :: "'a list \<Rightarrow> 'a \<Rightarrow> int" where
  "indexOf xs x = indexOf_from xs x 0"

definition js_at :: "'a list \<Rightarrow> int \<Rightarrow> 'a option" where
  "js_at xs i = (if 0 \<le> i \<and> i < int (length xs) then Some (xs ! nat i) else None)"

text \<open>
  \<open>Array.from(new Set(xs))\<close>: a set keeps its elements in the order of their first
  insertion.
\<close>

fun set_insert_all :: "'a list \<Rightarrow> 'a list \<Rightarrow> 'a list" where
  "set_insert_all seen [] = seen"
| "set_insert_all seen (x # xs) =
     (if x \<in> set seen then set_insert_all seen xs else set_insert_all (seen @ [x]) xs)"

definition array_from_set :: "'a list \<Rightarrow> 'a list" where
  "array_from_set xs = set_insert_all [] xs"

text \<open>\<open>String(d)\<close> for a non-negative integer: its decimal digits.\<close>

fun js_String :: "nat \<Rightarrow> string" where
  "js_String n =
     (if n < 10 then [char_of (48 + n)]
      else js_String (n div 10) @ [char_of (48 + n mod 10)])"

declare js_String.simps [simp del]

text \<open>\<open>words.join(", ")\<close>\<close>

fun join_comma :: "string list \<Rightarrow> string" where
  "join_comma [] = []"
| "join_comma [w] = w"
| "join_comma (w # ws) = w @ '', '' @ join_comma ws"

text \<open>
  \<open>shuffle\<close> sorts a copy of the array with a comparator that answers at random. Which
  permutation results is not determined by the program, so the generators take the
  shuffle as an argument; \<open>is_shuffle\<close> says that it returns a permutation of its input.
\<close>

definition is_shuffle :: "('a list \<Rightarrow> 'a list) \<Rightarrow> bool" where
  "is_shuffle f = (\<forall>xs. mset (f xs) = mset xs)"

definition makeWordRecallTask ::
  "(string list \<Rightarrow> string list) \<Rightarrow> string \<Rightarrow> string \<Rightarrow> string list \<Rightarrow> CognitiveTask" where
  "makeWordRecallTask shuffle i ttl words =
     (let opts = shuffle words;
          answer = map (indexOf opts) words
      in \<lparr> task_id = i, task_type = WordRecall, title = ttl,
           description = ''Remember the list of words and tap them in the same order after Begin.'',
           prompt = ''Remember the words: '' @ join_comma words @ ''.'',
           options = Some opts, correctAnswer = None, durationMs = None,
           sequenceAnswer = Some answer \<rparr>)"

text \<open>
  The inner shuffle draws five distractors from the ten digits, the outer one orders the
  de-duplicated pool.
\<close>

definition makeDigitSpanTask ::
  "(nat list \<Rightarrow> nat list) \<Rightarrow> (nat list \<Rightarrow> nat list) \<Rightarrow> string \<Rightarrow> string \<Rightarrow> nat list \<Rightarrow> CognitiveTask" where
  "makeDigitSpanTask shuffle_inner shuffle_outer i ttl digits =
     (let pool = shuffle_outer
                   (array_from_set (digits @ take 5 (shuffle_inner [0, 1, 2, 3, 4, 5, 6, 7, 8, 9])));
          opts = map js_String pool;
          answer = map (\<lambda>d. indexOf opts (js_String d)) digits
      in \<lparr> task_id = i, task_type = DigitSpan, title = ttl,
           description = ''Tap the digits in the exact order after Begin.'',
           prompt = join_comma (map js_String digits),
           options = Some opts, correctAnswer = None, durationMs = None,
           sequenceAnswer = Some answer \<rparr>)"

text \<open>
  \<open>generateCognitiveTasks\<close>, on the lexicon selected for the language. The program calls
  \<open>shuffle\<close> four times on word lists and four times on digit lists; the \<open>k\<close>-th call
  is the \<open>k\<close>-th member of the family passed in. The arrow of the two attention prompts
  is written as its three UTF-8 bytes.
\<close>

definition arrow :: string where
  "arrow = [CHR 0xE2, CHR 0x86, CHR 0x92]"

definition generateCognitiveTasks ::
  "(nat \<Rightarrow> string list \<Rightarrow> string list) \<Rightarrow> (nat \<Rightarrow> nat list \<Rightarrow> nat list) \<Rightarrow> string list
     \<Rightarrow> CognitiveTask list" where
  "generateCognitiveTasks shuffleW shuffleD lexicon =
     (let poolA = take 5 (shuffleW 0 lexicon);
          poolB = take 5 (shuffleW 1 (filter (\<lambda>w. w \<notin> set poolA) lexicon));
          word1 = makeWordRecallTask (shuffleW 2) ''word-recall'' ''Word Recall'' poolA;
          word2 = makeWordRecallTask (shuffleW 3) ''word-recall-2'' ''Word Recall II'' poolB;
          digit1 = makeDigitSpanTask (shuffleD 0) (shuffleD 1) ''digit-span'' ''Digit Span''
                     [3, 9, 1, 4, 7];
          digit2 = makeDigitSpanTask (shuffleD 2) (shuffleD 3) ''digit-span-reverse''
                     ''Digit Span (Reverse)'' [7, 2, 9, 3];
          attention1 =
            \<lparr> task_id = ''attention-sequence'', task_type = Attention,
              title = ''Attention Pattern'', description = ''Continue the color sequence.'',
              prompt = ''Red '' @ arrow @ '' Blue '' @ arrow @ '' Red '' @ arrow @ '' Blue ''
                         @ arrow @ '' ?'',
              options = Some [''Red'', ''Blue'', ''Green''], correctAnswer = Some 0,
              durationMs = None, sequenceAnswer = None \<rparr>;
          visualSearch =
            \<lparr> task_id = ''attention-visual'', task_type = Attention,
              title = ''Visual Search'', description = ''Find the odd-one-out.'',
              prompt = ''Square, Square, Circle, Square '' @ arrow @ '' Which is different?'',
              options = Some [''Circle'', ''Square'', ''Triangle''], correctAnswer = Some 0,
              durationMs = None, sequenceAnswer = None \<rparr>;
          clock =
            \<lparr> task_id = ''clock-drawing'', task_type = ClockDrawing,
              title = ''Clock Drawing'',
              description = ''Imagine drawing a clock showing the time 10 past 11.'',
              prompt = ''Picture a clock and describe how you would place the numbers and hands for 11:10.'',
              options = None, correctAnswer = None, durationMs = None, sequenceAnswer = None \<rparr>
      in [word1, digit1, attention1, word2, digit2, visualSearch, clock])"

text \<open>Every entry of the expected permutation is a position of the option list.\<close>

definition valid_answer :: "CognitiveTask \<Rightarrow> bool" where
  "valid_answer t =
     (case options t of
        None \<Rightarrow> False
      | Some opts \<Rightarrow>
          (case sequenceAnswer t of
             None \<Rightarrow> False
           | Some answer \<Rightarrow> list_all (\<lambda>a. js_at opts a \<noteq> None) answer))"

definition english_words :: "string list" where
  "english_words = [''Apple'', ''Train'', ''Moon'', ''Garden'', ''Candle'', ''Bridge'', ''Star'',
                    ''Window'', ''River'', ''Mirror'', ''Bottle'']"

definition digit_pool :: "(nat list \<Rightarrow> nat list) \<Rightarrow> (nat list \<Rightarrow> nat list) \<Rightarrow> nat list \<Rightarrow> nat list" where
  "digit_pool g f digits =
     f (array_from_set (digits @ take 5 (g [0, 1, 2, 3, 4, 5, 6, 7, 8, 9])))"

section \<open>Service client (services/api.ts)\<close>

text \<open>
  A value that a JavaScript \<open>throw\<close> or a rejected promise carries. \<open>ErrorObj\<close> is an
  \<open>Error\<close> instance with its message; the other constructors are the primitive values.
  An object is truthy, a primitive is truthy unless it is \<open>undefined\<close>, \<open>null\<close>,
  \<open>false\<close>, zero or the empty string.
\<close>

datatype thrown =
    Undefined
  | Null
  | Boolean bool
  | Number real
  | Str string
  | ErrorObj string

fun truthy :: "thrown \<Rightarrow> bool" where
  "truthy Undefined = False"
| "truthy Null = False"
| "truthy (Boolean b) = b"
| "truthy (Number x) = (x \<noteq> 0)"
| "truthy (Str s) = (s \<noteq> [])"
| "truthy (ErrorObj m) = True"

text \<open>\<open>error instanceof Error ? error.message : fallback\<close>\<close>

fun message_or :: "thrown \<Rightarrow> string \<Rightarrow> string" where
  "message_or (ErrorObj m) fallback = m"
| "message_or v fallback = fallback"

record FeatureImportance =
  feature :: string
  contribution :: real
  direction :: string

record AssessmentResult =
  assessmentId :: "string option"
  riskLevel :: "string option"
  probability :: "real option"
  featureImportances :: "FeatureImportance list"
  subScores :: CognitiveScores
  recommendations :: "string list"
  generatedAt :: "string option"

text \<open>
  The parsed JSON object of a result response, with the fields the client reads; a field
  that is absent or \<open>null\<close> is \<open>None\<close>.
\<close>

record RawSubScores =
  memory_score :: "real option"
  attention_score :: "real option"
  language_score :: "real option"
  executive_score :: "real option"

record RawResult =
  raw_detail :: "string option"
  raw_assessmentId :: "string option"
  raw_assessment_id :: "string option"
  raw_riskLevel :: "string option"
  raw_risk_level :: "string option"
  raw_probability :: "real option"
  raw_featureImportances :: "FeatureImportance list option"
  raw_feature_importances :: "FeatureImportance list option"
  raw_subScores :: "CognitiveScores option"
  raw_sub_scores :: "RawSubScores option"
  raw_recommendations :: "string list option"
  raw_generatedAt :: "string option"
  raw_generated_at :: "string option"

definition empty_raw :: RawResult where
  "empty_raw =
     \<lparr> raw_detail = None, raw_assessmentId = None, raw_assessment_id = None,
       raw_riskLevel = None, raw_risk_level = None, raw_probability = None,
       raw_featureImportances = None, raw_feature_importances = None,
       raw_subScores = None, raw_sub_scores = None, raw_recommendations = None,
       raw_generatedAt = None, raw_generated_at = None \<rparr>"

text \<open>
  \<open>await response.json().catch(() => null)\<close>: no JSON, a JSON string, or a JSON object.
\<close>

datatype Body = NoJson | JsonString string | JsonObject RawResult

record Response =
  ok :: bool
  body :: Body

text \<open>\<open>a ?? b\<close>\<close>

definition nullish :: "'a option \<Rightarrow> 'a option \<Rightarrow> 'a option" where
  "nullish a b = (case a of Some v \<Rightarrow> Some v | None \<Rightarrow> b)"

definition or_default :: "'a option \<Rightarrow> 'a \<Rightarrow> 'a" where
  "or_default a d = (case a of Some v \<Rightarrow> v | None \<Rightarrow> d)"

text \<open>
  \<open>typeof raw === "string" ? raw : (raw as any)?.detail || "Request failed"\<close>
\<close>

definition failure_message :: "Body \<Rightarrow> string" where
  "failure_message b =
     (case b of
        JsonString s \<Rightarrow> s
      | JsonObject r \<Rightarrow>
          (case raw_detail r of
             Some d \<Rightarrow> if d \<noteq> [] then d else ''Request failed''
           | None \<Rightarrow> ''Request failed'')
      | NoJson \<Rightarrow> ''Request failed'')"

definition normalize_risk :: "string option \<Rightarrow> string option" where
  "normalize_risk rawRisk = (if rawRisk = Some ''Moderate'' then Some ''Medium'' else rawRisk)"

text \<open>
  The body of \<open>fetchAssessmentResult\<close> after the status check. The initial value of
  \<open>subScores\<close> is \<open>raw.subScores ?? raw.sub_scores ?? zeros\<close>; when \<open>sub_scores\<close> is
  present the field is then overwritten by its camel-case conversion, so the snake-case
  object never survives in it.
\<close>

definition convert_sub_scores :: "RawSubScores \<Rightarrow> CognitiveScores" where
  "convert_sub_scores ss =
     \<lparr> memoryScore = or_default (memory_score ss) 0,
       attentionScore = or_default (attention_score ss) 0,
       languageScore = or_default (language_score ss) 0,
       executiveScore = or_default (executive_score ss) 0 \<rparr>"

definition normalize_result :: "RawResult \<Rightarrow> AssessmentResult" where
  "normalize_result raw =
     (let rawRisk = nullish (raw_riskLevel raw) (raw_risk_level raw);
          normalizedRisk = normalize_risk rawRisk
      in \<lparr> assessmentId = nullish (raw_assessmentId raw) (raw_assessment_id raw),
           riskLevel = normalizedRisk,
           probability = raw_probability raw,
           featureImportances =
             or_default (nullish (raw_featureImportances raw) (raw_feature_importances raw)) [],
           subScores =
             (case raw_sub_scores raw of
                Some ss \<Rightarrow> convert_sub_scores ss
              | None \<Rightarrow> or_default (raw_subScores raw) zero_scores),
           recommendations = or_default (raw_recommendations raw) [],
           generatedAt = nullish (raw_generatedAt raw) (raw_generated_at raw) \<rparr>)"

text \<open>
  \<open>fetchAssessmentResult\<close> on the response the server gave. A response that is not ok
  throws an \<open>Error\<close>; an ok response without JSON makes the first property read throw
  a \<open>TypeError\<close>; a property read on a JSON string gives \<open>undefined\<close>.
\<close>

definition fetchAssessmentResult :: "Response \<Rightarrow> thrown + AssessmentResult" where
  "fetchAssessmentResult response =
     (if \<not> ok response then Inl (ErrorObj (failure_message (body response)))
      else case body response of
             NoJson \<Rightarrow> Inl (ErrorObj ''TypeError: Cannot read properties of null'')
           | JsonString s \<Rightarrow> Inr (normalize_result empty_raw)
           | JsonObject raw \<Rightarrow> Inr (normalize_result raw))"

text \<open>The canonical three-level scale of \<open>AssessmentResult.riskLevel\<close>.\<close>

definition canonical_risk :: "string option \<Rightarrow> bool" where
  "canonical_risk r = (r = Some ''Low'' \<or> r = Some ''Medium'' \<or> r = Some ''High'')"

section \<open>Session orchestrator: results phase (Assessment page)\<close>

record UserProfile =
  user_id :: string
  user_language :: string
  accessToken :: "string option"

text \<open>
  The page state: the \<open>useState\<close> cells the handlers touch, the stored history,
  and the log of effects (toast titles with descriptions, values given to
  \<open>console.error\<close>, the number of result fetches issued, the delays awaited in ms).
\<close>

record PageState =
  activeStepIndex :: nat
  isLoading :: bool
  isSpeechUploading :: bool
  isResultPending :: bool
  result :: "AssessmentResult option"
  history :: "AssessmentResult list"
  stored :: "AssessmentResult list"
  page_toasts :: "(string \<times> string) list"
  page_console :: "thrown list"
  fetch_count :: nat
  page_delays :: "nat list"

text \<open>
  What the outside world answers: the outcome of the submission and of the prediction
  request (\<open>None\<close> when the call resolves), and for the \<open>k\<close>-th result fetch either
  the value the network layer rejects with or the response.
\<close>

record World =
  submit_outcome :: "thrown option"
  predict_outcome :: "thrown option"
  fetch_outcome :: "nat \<Rightarrow> thrown + Response"

definition fetch_call :: "thrown + Response \<Rightarrow> thrown + AssessmentResult" where
  "fetch_call outcome = (case outcome of Inl e \<Rightarrow> Inl e | Inr response \<Rightarrow> fetchAssessmentResult response)"

text \<open>\<open>Math.min(index + 1, STEP_CONFIG.length - 1)\<close> with four steps.\<close>

definition advanceStep :: "PageState \<Rightarrow> PageState" where
  "advanceStep st = st\<lparr> activeStepIndex := min (activeStepIndex st + 1) 3 \<rparr>"

definition toast :: "string \<Rightarrow> string \<Rightarrow> PageState \<Rightarrow> PageState" where
  "toast ttl dsc st = st\<lparr> page_toasts := page_toasts st @ [(ttl, dsc)] \<rparr>"

text \<open>
  The polling loop: \<open>for (let i = 0; i < 15; i++)\<close>, a fetch per round, \<open>break\<close> on the
  first one that returns, \<open>await sleep(1000)\<close> after one that throws. The result is the
  final value of \<open>fetched\<close>.
\<close>

function poll :: "World \<Rightarrow> nat \<Rightarrow> PageState \<Rightarrow> AssessmentResult option \<times> PageState" where
  "poll w i st =
     (if i < 15
      then (case fetch_call (fetch_outcome w (fetch_count st)) of
              Inr fetched \<Rightarrow> (Some fetched, st\<lparr> fetch_count := fetch_count st + 1 \<rparr>)
            | Inl err \<Rightarrow>
                poll w (i + 1)
                  (st\<lparr> fetch_count := fetch_count st + 1,
                      page_delays := page_delays st @ [1000] \<rparr>))
      else (None, st))"
  by pat_completeness auto
termination
  by (relation "measure (\<lambda>(w, i, st). 15 - i)") auto

declare poll.simps [simp del]

text \<open>
  \<open>saveAssessmentResult\<close> followed by \<open>setHistory(loadAssessmentHistory(...))\<close>: the
  result is appended to the stored list unless one with the same assessment id is there.
\<close>

definition saveAssessmentResult :: "AssessmentResult \<Rightarrow> PageState \<Rightarrow> PageState" where
  "saveAssessmentResult r st =
     (if find (\<lambda>x. assessmentId x = assessmentId r) (stored st) = None
      then st\<lparr> stored := stored st @ [r] \<rparr> else st)"

text \<open>
  The body of the \<open>try\<close> block of \<open>handleCognitiveComplete\<close>: \<open>Inl\<close> carries the value
  thrown and the state reached when it was thrown.
\<close>

definition results_phase :: "World \<Rightarrow> PageState \<Rightarrow> thrown \<times> PageState + PageState" where
  "results_phase w st =
     (let st1 = st\<lparr> isLoading := True \<rparr>;
          st2 = advanceStep st1;
          st3 = st2\<lparr> isResultPending := True \<rparr>
      in case submit_outcome w of
           Some e \<Rightarrow> Inl (e, st3)
         | None \<Rightarrow>
             (let st4 = toast ''Cognitive data captured'' [] st3
              in case predict_outcome w of
                   Some e \<Rightarrow> Inl (e, st4)
                 | None \<Rightarrow>
                     (let (fetched, st5) = poll w 0 st4;
                          st6 = (case fetched of
                                   Some r \<Rightarrow>
                                     (let s = saveAssessmentResult r (st5\<lparr> result := Some r \<rparr>)
                                      in s\<lparr> history := stored s \<rparr>)
                                 | None \<Rightarrow>
                                     toast ''Prediction pending''
                                       ''Result is taking longer than usual. Please wait a few seconds and retry.''
                                       st5)
                      in Inr (st6\<lparr> isResultPending := False \<rparr>))))"

text \<open>
  \<open>handleCognitiveComplete\<close>: the guard on the session, the \<open>try\<close> block, its
  \<open>catch\<close> and its \<open>finally\<close>. An empty assessment id is falsy.
\<close>

definition handleCognitiveComplete ::
  "World \<Rightarrow> string option \<Rightarrow> UserProfile option \<Rightarrow> PageState \<Rightarrow> PageState" where
  "handleCognitiveComplete w aid user st =
     (if aid = None \<or> aid = Some [] \<or> user = None
      then toast ''Assessment not started'' ''Please complete onboarding first.'' st
      else
        (let after =
               (case results_phase w st of
                  Inr s \<Rightarrow> s
                | Inl (e, s) \<Rightarrow>
                    (toast ''Prediction failed'' (message_or e ''Please try again later.'')
                       (s\<lparr> page_console := page_console s @ [e] \<rparr>))
                      \<lparr> isResultPending := False \<rparr>)
         in after\<lparr> isLoading := False \<rparr>))"

definition init_page :: PageState where
  "init_page =
     \<lparr> activeStepIndex = 2, isLoading = False, isSpeechUploading = False,
       isResultPending = False, result = None,
       history = [], stored = [], page_toasts = [], page_console = [],
       fetch_count = 0, page_delays = [] \<rparr>"

definition demo_user :: UserProfile where
  "demo_user = \<lparr> user_id = ''u1'', user_language = ''en'', accessToken = Some ''token'' \<rparr>"

definition not_ready :: Response where
  "not_ready = \<lparr> ok = False,
                 body = JsonObject (empty_raw\<lparr> raw_detail := Some ''Prediction not ready'' \<rparr>) \<rparr>"

definition never_ready_world :: World where
  "never_ready_world =
     \<lparr> submit_outcome = None, predict_outcome = None, fetch_outcome = (\<lambda>k. Inr not_ready) \<rparr>"

definition moderate_response :: Response where
  "moderate_response =
     \<lparr> ok = True,
       body = JsonObject (empty_raw\<lparr> raw_assessment_id := Some ''a1'',
                                      raw_risk_level := Some ''Moderate'',
                                      raw_probability := Some (1 / 2) \<rparr>) \<rparr>"

definition severe_response :: Response where
  "severe_response =
     \<lparr> ok = True,
       body = JsonObject (empty_raw\<lparr> raw_assessment_id := Some ''a1'',
                                      raw_risk_level := Some ''Severe'' \<rparr>) \<rparr>"

definition ready_at_15_world :: World where
  "ready_at_15_world =
     \<lparr> submit_outcome = None, predict_outcome = None,
       fetch_outcome = (\<lambda>k. if k < 14 then Inr not_ready else Inr moderate_response) \<rparr>"

definition severe_result :: AssessmentResult where
  "severe_result =
     \<lparr> assessmentId = Some ''a1'', riskLevel = Some ''Severe'', probability = None,
       featureImportances = [], subScores = zero_scores, recommendations = [],
       generatedAt = None \<rparr>"

text \<open>The \<open>k\<close>-th result fetch throws.\<close>

definition fetch_fails :: "World \<Rightarrow> nat \<Rightarrow> bool" where
  "fetch_fails w k = (case fetch_call (fetch_outcome w k) of Inl e \<Rightarrow> True | Inr r \<Rightarrow> False)"

text \<open>The state in which the polling loop starts, and what follows the loop.\<close>

definition before_poll :: "PageState \<Rightarrow> PageState" where
  "before_poll st =
     toast ''Cognitive data captured'' []
       ((advanceStep (st\<lparr> isLoading := True \<rparr>))\<lparr> isResultPending := True \<rparr>)"

definition after_poll :: "AssessmentResult option \<times> PageState \<Rightarrow> PageState" where
  "after_poll p =
     (case p of (fetched, st5) \<Rightarrow>
        (case fetched of
           Some r \<Rightarrow>
             (let s = saveAssessmentResult r (st5\<lparr> result := Some r \<rparr>)
              in s\<lparr> history := stored s \<rparr>)
         | None \<Rightarrow>
             toast ''Prediction pending''
               ''Result is taking longer than usual. Please wait a few seconds and retry.''
               st5)\<lparr> isResultPending := False \<rparr>)"

section \<open>Capture and upload pipeline (SpeechRecorder.tsx, Assessment page)\<close>

record Blob =
  blob_size :: nat
  blob_type :: string

record SpeechTask =
  speech_id :: string
  speech_title :: string
  speech_description :: string
  speech_prompt :: string
  maxDurationMs :: "real option"

record UploadPayload =
  up_taskId :: string
  up_blob :: Blob
  up_durationMs :: real

text \<open>
  The recorder state: the \<open>useState\<close> cells \<open>currentIndex\<close> and \<open>elapsedMs\<close>, the chunk
  buffer \<open>chunksRef.current\<close>, and the log of effects (the payloads handed to
  \<open>onUpload\<close>, the delays awaited in ms, the number of \<open>onComplete\<close> calls, the values
  given to \<open>console.error\<close>, the toasts).
\<close>

record RecorderState =
  rec_currentIndex :: nat
  elapsedMs :: real
  chunksRef :: "Blob list"
  uploads :: "UploadPayload list"
  rec_delays :: "nat list"
  completions :: nat
  rec_console :: "thrown list"
  rec_toasts :: "(string \<times> string) list"

text \<open>
  \<open>new Blob(chunks, { type: chunks[0]?.type || "audio/webm" })\<close>: the concatenation of
  the chunks, of the first chunk's type unless that is empty.
\<close>

definition assemble :: "Blob list \<Rightarrow> Blob" where
  "assemble chunks =
     \<lparr> blob_size = sum_list (map blob_size chunks),
       blob_type = (case chunks of
                      [] \<Rightarrow> ''audio/webm''
                    | c # cs \<Rightarrow> if blob_type c \<noteq> [] then blob_type c else ''audio/webm'') \<rparr>"

text \<open>
  The retry loop of \<open>handleDataAvailable\<close>. The upload function is the environment's:
  its \<open>k\<close>-th call, on a payload, resolves (\<open>None\<close>) or rejects with a value. The loop
  returns the final value of \<open>lastErr\<close>, which starts as \<open>undefined\<close>, is set to the value
  caught after a rejected call and reset to \<open>undefined\<close> by a call that resolves.
\<close>

function upload_loop ::
  "(nat \<Rightarrow> UploadPayload \<Rightarrow> thrown option) \<Rightarrow> UploadPayload \<Rightarrow> nat \<Rightarrow> thrown \<Rightarrow> RecorderState
     \<Rightarrow> thrown \<times> RecorderState" where
  "upload_loop onUpload p i lastErr st =
     (if i < 3
      then (case onUpload (length (uploads st)) p of
              None \<Rightarrow> (Undefined, st\<lparr> uploads := uploads st @ [p] \<rparr>)
            | Some e \<Rightarrow>
                upload_loop onUpload p (i + 1) e
                  (st\<lparr> uploads := uploads st @ [p], rec_delays := rec_delays st @ [600] \<rparr>))
      else (lastErr, st))"
  by pat_completeness auto
termination
  by (relation "measure (\<lambda>(onUpload, p, i, lastErr, st). 3 - i)") auto

declare upload_loop.simps [simp del]

text \<open>
  \<open>handleDataAvailable\<close>. The callback reads \<open>currentIndex\<close> and \<open>elapsedMs\<close> as they
  were when it was created (arguments \<open>cIndex\<close>, \<open>cElapsed\<close>; the current task is the
  one at \<open>cIndex\<close>), while the chunk buffer is a ref and \<open>setCurrentIndex\<close> updates the
  state functionally. \<open>if (lastErr) throw lastErr\<close> throws when the value is truthy;
  the outer \<open>catch\<close> logs what was thrown and shows a toast.
\<close>

definition handleDataAvailable ::
  "(nat \<Rightarrow> UploadPayload \<Rightarrow> thrown option) \<Rightarrow> SpeechTask list \<Rightarrow> nat \<Rightarrow> real \<Rightarrow> Blob
     \<Rightarrow> RecorderState \<Rightarrow> RecorderState" where
  "handleDataAvailable onUpload tasks cIndex cElapsed ev st =
     (case js_index tasks cIndex of
        None \<Rightarrow> st
      | Some currentTask \<Rightarrow>
          if blob_size ev = 0 then st
          else
            (let st1 = st\<lparr> chunksRef := chunksRef st @ [ev] \<rparr>;
                 p = \<lparr> up_taskId = speech_id currentTask,
                       up_blob = assemble (chunksRef st1),
                       up_durationMs = cElapsed \<rparr>;
                 (lastErr, st2) = upload_loop onUpload p 0 Undefined st1
             in if truthy lastErr
                then st2\<lparr> rec_console := rec_console st2 @ [lastErr],
                          rec_toasts := rec_toasts st2 @
                            [(''Upload failed'', ''Could not upload speech sample. Please try again.'')] \<rparr>
                else
                  (let st3 = st2\<lparr> chunksRef := [] \<rparr>
                   in if int cIndex < int (length tasks) - 1
                      then st3\<lparr> rec_currentIndex := rec_currentIndex st3 + 1, elapsedMs := 0 \<rparr>
                      else st3\<lparr> completions := completions st3 + 1 \<rparr>)))"

text \<open>The payload the handler builds for a chunk.\<close>

definition chunk_payload :: "SpeechTask \<Rightarrow> real \<Rightarrow> Blob \<Rightarrow> RecorderState \<Rightarrow> UploadPayload" where
  "chunk_payload currentTask cElapsed ev st =
     \<lparr> up_taskId = speech_id currentTask,
       up_blob = assemble (chunksRef st @ [ev]),
       up_durationMs = cElapsed \<rparr>"

text \<open>
  \<open>handleSpeechUpload\<close>, the upload function the page passes to the recorder, on the
  outcome of \<open>uploadSpeechSample\<close>. Its own \<open>try\<close>/\<open>catch\<close> turns a failed upload into
  a toast, so the promise it returns always resolves: the first component is the value
  it rejects with, if any. \<open>Math.round\<close> of a non-negative number of seconds is
  \<open>floor (x + 1/2)\<close>.
\<close>

definition handleSpeechUpload ::
  "string option \<Rightarrow> UserProfile option \<Rightarrow> thrown option \<Rightarrow> UploadPayload \<Rightarrow> PageState
     \<Rightarrow> thrown option \<times> PageState" where
  "handleSpeechUpload aid user upload_outcome p st =
     (if aid = None \<or> aid = Some [] \<or> user = None
      then (None, toast ''Assessment not started'' ''Please complete onboarding first.'' st)
      else
        (let st1 = st\<lparr> isSpeechUploading := True \<rparr>;
             st2 = (case upload_outcome of
                      None \<Rightarrow>
                        toast ''Speech sample captured''
                          (''Recorded '' @ js_String (nat \<lfloor>up_durationMs p / 1000 + 1 / 2\<rfloor>)
                             @ '' seconds for '' @ up_taskId p @ ''.'') st1
                    | Some e \<Rightarrow>
                        toast ''Upload failed''
                          (message_or e ''Check your connection and try again.'')
                          (st1\<lparr> page_console := page_console st1 @ [e] \<rparr>))
         in (None, st2\<lparr> isSpeechUploading := False \<rparr>)))"

definition init_recorder :: RecorderState where
  "init_recorder =
     \<lparr> rec_currentIndex = 0, elapsedMs = 0, chunksRef = [], uploads = [], rec_delays = [],
       completions = 0, rec_console = [], rec_toasts = [] \<rparr>"

definition demo_speech_tasks :: "SpeechTask list" where
  "demo_speech_tasks =
     [\<lparr> speech_id = ''picture-description'', speech_title = ''Picture Description'',
        speech_description = ''Describe the scene shown in the picture prompt.'',
        speech_prompt = ''Describe everything you see.'', maxDurationMs = Some 90000 \<rparr>,
      \<lparr> speech_id = ''story-recall'', speech_title = ''Story Recall'',
        speech_description = ''Listen to a short story and retell it in your own words.'',
        speech_prompt = ''Recall a memorable event from your life.'', maxDurationMs = Some 120000 \<rparr>]"

definition demo_chunk :: Blob where
  "demo_chunk = \<lparr> blob_size = 2048, blob_type = ''audio/webm;codecs=opus'' \<rparr>"

text \<open>Upload functions: one that always rejects without a reason, as \<open>Promise.reject()\<close>
  does; one that always rejects with an \<open>Error\<close>; one that fails twice and then succeeds;
  and the page's own, when the server refuses the upload.\<close>

definition reject_undefined :: "nat \<Rightarrow> UploadPayload \<Rightarrow> thrown option" where
  "reject_undefined k p = Some Undefined"

definition reject_error :: "nat \<Rightarrow> UploadPayload \<Rightarrow> thrown option" where
  "reject_error k p = Some (ErrorObj ''Request failed'')"

definition fail_twice :: "nat \<Rightarrow> UploadPayload \<Rightarrow> thrown option" where
  "fail_twice k p = (if k < 2 then Some (ErrorObj ''Request failed'') else None)"

definition page_upload_refused :: "nat \<Rightarrow> UploadPayload \<Rightarrow> thrown option" where
  "page_upload_refused k p =
     fst (handleSpeechUpload (Some ''a1'') (Some demo_user) (Some (ErrorObj ''Request failed'')) p init_page)"

text \<open>
  A recording. \<open>startRecording\<close> empties the chunk buffer, resets the elapsed-time
  counter and registers, once, the \<open>handleDataAvailable\<close> of the render in which it was
  called: that callback keeps the \<open>currentIndex\<close> and \<open>elapsedMs\<close> of the state the
  recording started in. The recorder then delivers a chunk every second
  (\<open>recorder.start(1000)\<close>) to that same callback, and the timer writes the elapsed time
  on every animation frame.
\<close>

datatype recorder_event = DataAvailable Blob | Tick real

definition startRecording :: "RecorderState \<Rightarrow> RecorderState" where
  "startRecording st = st\<lparr> chunksRef := [], elapsedMs := 0 \<rparr>"

definition recorder_step ::
  "(nat \<Rightarrow> UploadPayload \<Rightarrow> thrown option) \<Rightarrow> SpeechTask list \<Rightarrow> nat \<Rightarrow> real
     \<Rightarrow> RecorderState \<Rightarrow> recorder_event \<Rightarrow> RecorderState" where
  "recorder_step onUpload tasks cIndex cElapsed s e =
     (case e of
        DataAvailable ev \<Rightarrow> handleDataAvailable onUpload tasks cIndex cElapsed ev s
      | Tick v \<Rightarrow> s\<lparr> elapsedMs := v \<rparr>)"

definition recording ::
  "(nat \<Rightarrow> UploadPayload \<Rightarrow> thrown option) \<Rightarrow> SpeechTask list \<Rightarrow> RecorderState
     \<Rightarrow> recorder_event list \<Rightarrow> RecorderState" where
  "recording onUpload tasks st evs =
     foldl (recorder_step onUpload tasks (rec_currentIndex st) (elapsedMs st))
       (startRecording st) evs"

text \<open>An upload function that always succeeds.\<close>

definition always_ok :: "nat \<Rightarrow> UploadPayload \<Rightarrow> thrown option" where
  "always_ok k p = None"

section \<open>Properties: scoring engine\<close>

lemma adjustedScore_nonneg: "0 \<le> adjustedScore st"
  by (simp add: adjustedScore_def)

lemma baseScore_le_1: "baseScore st \<le> 1"
  by (simp add: baseScore_def split: option.splits)

lemma penalty_nonneg: "0 \<le> penalty st"
  by (simp add: penalty_def)

lemma adjustedScore_le_1: "adjustedScore st \<le> 1"
proof -
  have "baseScore st - penalty st \<le> 1"
    using baseScore_le_1 [of st] penalty_nonneg [of st] by linarith
  then show ?thesis by (simp add: adjustedScore_def)
qed

lemma penalty_ge_1:
  assumes "10 \<le> errors s"
  shows "1 \<le> penalty (Some s)"
proof -
  have "(10::real) \<le> real (errors s)" using assms by simp
  then show ?thesis by (simp add: penalty_def)
qed

text \<open>
  C5. For every task state (also a missing one) the adjusted score
  \<open>max(0, (correct ? 1 : 0) - 0.1 * errors)\<close> lies between 0 and 1, and a state with at
  least ten errors scores exactly 0, whatever its correctness.
\<close>

theorem adjusted_score_bounds:
  "0 \<le> adjustedScore st \<and> adjustedScore st \<le> 1 \<and>
   (\<forall>s. st = Some s \<and> 10 \<le> errors s \<longrightarrow> adjustedScore st = 0)"
proof (intro conjI allI impI)
  show "0 \<le> adjustedScore st" by (rule adjustedScore_nonneg)
  show "adjustedScore st \<le> 1" by (rule adjustedScore_le_1)
next
  fix s
  assume h: "st = Some s \<and> 10 \<le> errors s"
  then have "1 \<le> penalty (Some s)" by (simp add: penalty_ge_1)
  moreover have "baseScore (Some s) \<le> 1" by (rule baseScore_le_1)
  ultimately have "baseScore (Some s) - penalty (Some s) \<le> 0" by linarith
  with h show "adjustedScore st = 0" by (simp add: adjustedScore_def)
qed

theorem adjusted_score_bounds_witness:
  "correct many_errors_state = Some True \<and> 10 \<le> errors many_errors_state \<and>
   adjustedScore (Some many_errors_state) = 0 \<and>
   adjustedScore (Some done_word_state) = 1"
proof -
  have e: "10 \<le> errors many_errors_state"
    by (simp add: many_errors_state_def fresh_state_def)
  have "adjustedScore (Some many_errors_state) = 0"
    using adjusted_score_bounds [of "Some many_errors_state"] e by blast
  moreover have "adjustedScore (Some done_word_state) = 1"
    by (simp add: adjustedScore_def baseScore_def penalty_def done_word_state_def fresh_state_def)
  moreover have "correct many_errors_state = Some True"
    by (simp add: many_errors_state_def fresh_state_def)
  ultimately show ?thesis using e by simp
qed

lemma score_step_memory:
  "memoryScore (score_step ts acc t) = memoryScore acc + memory_part ts t"
  by (simp add: score_step_def memory_part_def Let_def)

lemma score_step_attention:
  "attentionScore (score_step ts acc t) = attentionScore acc + attention_part ts t"
  by (simp add: score_step_def attention_part_def Let_def)

lemma score_step_executive:
  "executiveScore (score_step ts acc t) = executiveScore acc + executive_part ts t"
  by (simp add: score_step_def executive_part_def Let_def)

lemma score_step_language:
  "languageScore (score_step ts acc t) = languageScore acc + language_part ts t"
  by (simp add: score_step_def language_part_def Let_def)

lemma foldl_memory:
  "memoryScore (foldl (score_step ts) acc tasks) = memoryScore acc + sum_list (map (memory_part ts) tasks)"
  by (induction tasks arbitrary: acc) (simp_all add: score_step_memory)

lemma foldl_attention:
  "attentionScore (foldl (score_step ts) acc tasks) = attentionScore acc + sum_list (map (attention_part ts) tasks)"
  by (induction tasks arbitrary: acc) (simp_all add: score_step_attention)

lemma foldl_executive:
  "executiveScore (foldl (score_step ts) acc tasks) = executiveScore acc + sum_list (map (executive_part ts) tasks)"
  by (induction tasks arbitrary: acc) (simp_all add: score_step_executive)

lemma foldl_language:
  "languageScore (foldl (score_step ts) acc tasks) = languageScore acc + sum_list (map (language_part ts) tasks)"
  by (induction tasks arbitrary: acc) (simp_all add: score_step_language)

lemma score_step_zero:
  assumes "adjustedScore (ts (task_id t)) = 0"
  shows "score_step ts acc t = acc"
  using assms by (simp add: score_step_def Let_def)

lemma adjustedScore_None: "adjustedScore None = 0"
  by (simp add: adjustedScore_def baseScore_def penalty_def)

lemma adjustedScore_perfect:
  assumes "correct s = Some True" "errors s = 0"
  shows "adjustedScore (Some s) = 1"
  using assms by (simp add: adjustedScore_def baseScore_def penalty_def)

lemma score_step_word:
  assumes "task_type t = WordRecall"
  shows "score_step ts acc t = acc\<lparr>memoryScore := memoryScore acc + adjustedScore (ts (task_id t))\<rparr>"
  using assms by (simp add: score_step_def Let_def)

lemma sum_no_memory:
  assumes "\<forall>u \<in> set us. task_type u \<noteq> WordRecall"
  shows "sum_list (map (memory_part ts) us) = 0"
  using assms by (induction us) (simp_all add: memory_part_def)

text \<open>
  C7. Each domain total is the sum, over the task list, of the adjusted scores of the tasks
  of the kinds attributed to it: word-recall to memory, digit-span and attention to
  attention, clock-drawing to executive, tapping to language. A correct word-recall task
  with no errors adds 1 to memory and nothing to the other three totals, and when no other
  task of the list is a word-recall task the memory total is exactly 1.
\<close>

theorem domain_attribution:
  "memoryScore (compute_scores ts tasks) = sum_list (map (memory_part ts) tasks) \<and>
   attentionScore (compute_scores ts tasks) = sum_list (map (attention_part ts) tasks) \<and>
   languageScore (compute_scores ts tasks) = sum_list (map (language_part ts) tasks) \<and>
   executiveScore (compute_scores ts tasks) = sum_list (map (executive_part ts) tasks) \<and>
   (task_type t = WordRecall \<and> ts (task_id t) = Some s \<and> correct s = Some True \<and> errors s = 0 \<longrightarrow>
      score_step ts acc t = acc\<lparr>memoryScore := memoryScore acc + 1\<rparr> \<and>
      memory_part ts t = 1 \<and> attention_part ts t = 0 \<and>
      language_part ts t = 0 \<and> executive_part ts t = 0 \<and>
      ((\<forall>u \<in> set pre \<union> set post. task_type u \<noteq> WordRecall) \<longrightarrow>
         memoryScore (compute_scores ts (pre @ t # post)) = 1))"
proof (intro conjI impI)
  show "memoryScore (compute_scores ts tasks) = sum_list (map (memory_part ts) tasks)"
    by (simp add: compute_scores_def foldl_memory zero_scores_def)
  show "attentionScore (compute_scores ts tasks) = sum_list (map (attention_part ts) tasks)"
    by (simp add: compute_scores_def foldl_attention zero_scores_def)
  show "languageScore (compute_scores ts tasks) = sum_list (map (language_part ts) tasks)"
    by (simp add: compute_scores_def foldl_language zero_scores_def)
  show "executiveScore (compute_scores ts tasks) = sum_list (map (executive_part ts) tasks)"
    by (simp add: compute_scores_def foldl_executive zero_scores_def)
next
  assume h: "task_type t = WordRecall \<and> ts (task_id t) = Some s \<and> correct s = Some True \<and> errors s = 0"
  then have a: "adjustedScore (ts (task_id t)) = 1"
    by (simp add: adjustedScore_perfect)
  show "score_step ts acc t = acc\<lparr>memoryScore := memoryScore acc + 1\<rparr>"
    using h a by (simp add: score_step_word)
  show m: "memory_part ts t = 1" using h a by (simp add: memory_part_def)
  show "attention_part ts t = 0" using h by (simp add: attention_part_def)
  show "language_part ts t = 0" using h by (simp add: language_part_def)
  show "executive_part ts t = 0" using h by (simp add: executive_part_def)
  assume n: "\<forall>u \<in> set pre \<union> set post. task_type u \<noteq> WordRecall"
  then have "sum_list (map (memory_part ts) pre) = 0" "sum_list (map (memory_part ts) post) = 0"
    by (simp_all add: sum_no_memory)
  then show "memoryScore (compute_scores ts (pre @ t # post)) = 1"
    using m unfolding compute_scores_def foldl_memory by (simp add: zero_scores_def)
qed


theorem domain_attribution_witness:
  "scores (handleFinish [demo_attention_task, demo_word_task, demo_clock_task] demo_states)
     = \<lparr> memoryScore = 1, attentionScore = 0, languageScore = 0, executiveScore = 0 \<rparr> \<and>
   memoryScore (compute_scores demo_states ([demo_attention_task] @ demo_word_task # [demo_clock_task])) = 1"
proof -
  have h: "task_type demo_word_task = WordRecall \<and>
           demo_states (task_id demo_word_task) = Some done_word_state \<and>
           correct done_word_state = Some True \<and> errors done_word_state = 0"
    by (simp add: demo_word_task_def demo_states_def done_word_state_def fresh_state_def)
  have n: "\<forall>u \<in> set [demo_attention_task] \<union> set [demo_clock_task]. task_type u \<noteq> WordRecall"
    by (simp add: demo_attention_task_def demo_clock_task_def)
  have "memoryScore (compute_scores demo_states ([demo_attention_task] @ demo_word_task # [demo_clock_task])) = 1"
    using domain_attribution [of demo_states "[]" demo_word_task done_word_state zero_scores
        "[demo_attention_task]" "[demo_clock_task]"] h n by blast
  moreover have "scores (handleFinish [demo_attention_task, demo_word_task, demo_clock_task] demo_states)
     = \<lparr> memoryScore = 1, attentionScore = 0, languageScore = 0, executiveScore = 0 \<rparr>"
    by (simp add: handleFinish_def compute_scores_def score_step_def zero_scores_def Let_def
        adjustedScore_def baseScore_def penalty_def
        demo_attention_task_def demo_word_task_def demo_clock_task_def demo_states_def
        done_word_state_def fresh_state_def)
  ultimately show ?thesis by simp
qed

lemma make_log_no_state:
  assumes "ts (task_id t) = None"
  shows "make_log ts t =
           \<lparr> taskId = task_id t, taskType = Cognitive, log_prompt = prompt t,
             log_responseTimeMs = 0, log_correct = None, log_errors = None,
             metadata = (case sequenceAnswer t of
                           None \<Rightarrow> None
                         | Some e \<Rightarrow> Some \<lparr> expectedSequence = e, selectedSequence = [] \<rparr>) \<rparr>"
  using assms by (simp add: make_log_def Let_def split: option.splits)

lemma taskId_make_log: "taskId (make_log ts t) = task_id t"
  by (simp add: make_log_def Let_def)

text \<open>
  C10. Assembling the submission yields one log per task, in task order, for every task
  list and every map of task states. A task without a recorded state gets a log with
  response time 0, unknown correctness, no error count, and as metadata either nothing or
  the expected sequence with an empty selected sequence; it leaves all four domain totals
  as they were.
\<close>

theorem submission_total:
  "length (logs (handleFinish tasks ts)) = length tasks \<and>
   map taskId (logs (handleFinish tasks ts)) = map task_id tasks \<and>
   (\<forall>i < length tasks. logs (handleFinish tasks ts) ! i = make_log ts (tasks ! i)) \<and>
   (ts (task_id t) = None \<longrightarrow>
      log_responseTimeMs (make_log ts t) = 0 \<and>
      log_correct (make_log ts t) = None \<and>
      log_errors (make_log ts t) = None \<and>
      metadata (make_log ts t) =
        (case sequenceAnswer t of
           None \<Rightarrow> None
         | Some e \<Rightarrow> Some \<lparr> expectedSequence = e, selectedSequence = [] \<rparr>) \<and>
      score_step ts acc t = acc \<and>
      memory_part ts t = 0 \<and> attention_part ts t = 0 \<and>
      language_part ts t = 0 \<and> executive_part ts t = 0)"
proof (intro conjI impI allI)
  show "length (logs (handleFinish tasks ts)) = length tasks"
    by (simp add: handleFinish_def)
  show "map taskId (logs (handleFinish tasks ts)) = map task_id tasks"
    by (simp add: handleFinish_def taskId_make_log)
next
  fix i assume "i < length tasks"
  then show "logs (handleFinish tasks ts) ! i = make_log ts (tasks ! i)"
    by (simp add: handleFinish_def)
next
  assume n: "ts (task_id t) = None"
  note ml = make_log_no_state [of ts t, OF n]
  show "log_responseTimeMs (make_log ts t) = 0" by (simp add: ml)
  show "log_correct (make_log ts t) = None" by (simp add: ml)
  show "log_errors (make_log ts t) = None" by (simp add: ml)
  show "metadata (make_log ts t) =
        (case sequenceAnswer t of
           None \<Rightarrow> None
         | Some e \<Rightarrow> Some \<lparr> expectedSequence = e, selectedSequence = [] \<rparr>)" by (simp add: ml)
  have a: "adjustedScore (ts (task_id t)) = 0" using n by (simp add: adjustedScore_None)
  show "score_step ts acc t = acc" using a by (simp add: score_step_zero)
  show "memory_part ts t = 0" using a by (simp add: memory_part_def)
  show "attention_part ts t = 0" using a by (simp add: attention_part_def)
  show "language_part ts t = 0" using a by (simp add: language_part_def)
  show "executive_part ts t = 0" using a by (simp add: executive_part_def)
qed

theorem submission_total_witness:
  "map taskId (logs (handleFinish [demo_word_task, demo_attention_task, demo_clock_task] Map.empty))
     = [''word-recall'', ''attention-sequence'', ''clock-drawing''] \<and>
   logs (handleFinish [demo_word_task, demo_attention_task, demo_clock_task] Map.empty) ! 0
     = make_log Map.empty demo_word_task \<and>
   metadata (make_log Map.empty demo_word_task)
     = Some \<lparr> expectedSequence = [1, 0], selectedSequence = [] \<rparr> \<and>
   log_correct (make_log Map.empty demo_word_task) = None \<and>
   scores (handleFinish [demo_word_task, demo_attention_task, demo_clock_task] Map.empty) = zero_scores"
proof -
  let ?tasks = "[demo_word_task, demo_attention_task, demo_clock_task]"
  note t = submission_total [of ?tasks Map.empty demo_word_task zero_scores]
  have n: "Map.empty (task_id demo_word_task) = (None :: TaskState option)" by simp
  have i: "(0::nat) < length ?tasks" by simp
  have "map taskId (logs (handleFinish ?tasks Map.empty)) = map task_id ?tasks"
    using t by blast
  then have 1: "map taskId (logs (handleFinish ?tasks Map.empty))
     = [''word-recall'', ''attention-sequence'', ''clock-drawing'']"
    by (simp add: demo_word_task_def demo_attention_task_def demo_clock_task_def)
  have "logs (handleFinish ?tasks Map.empty) ! 0 = make_log Map.empty (?tasks ! 0)"
    using t i by blast
  then have 2: "logs (handleFinish ?tasks Map.empty) ! 0 = make_log Map.empty demo_word_task"
    by simp
  have "metadata (make_log Map.empty demo_word_task) =
        (case sequenceAnswer demo_word_task of
           None \<Rightarrow> None
         | Some e \<Rightarrow> Some \<lparr> expectedSequence = e, selectedSequence = [] \<rparr>)"
    using t n by blast
  then have 3: "metadata (make_log Map.empty demo_word_task)
     = Some \<lparr> expectedSequence = [1, 0], selectedSequence = [] \<rparr>"
    by (simp add: demo_word_task_def)
  have 4: "log_correct (make_log Map.empty demo_word_task) = None"
    using t n by blast
  have 5: "scores (handleFinish ?tasks Map.empty) = zero_scores"
    by (simp add: handleFinish_def compute_scores_def score_step_def zero_scores_def Let_def
        adjustedScore_def baseScore_def penalty_def
        demo_attention_task_def demo_word_task_def demo_clock_task_def)
  show ?thesis using 1 2 3 4 5 by simp
qed

section \<open>Properties: cognitive task state machine\<close>

lemma mismatch_loop_count:
  "mismatch_loop expected seq len i m =
     m + length (filter (\<lambda>k. js_index expected k \<noteq> js_index seq k) [i ..< len])"
proof (induction expected seq len i m rule: mismatch_loop.induct)
  case (1 expected seq len i m)
  show ?case
  proof (cases "i < len")
    case True
    then have u: "[i ..< len] = i # [i + 1 ..< len]" by (simp add: upt_conv_Cons)
    show ?thesis
      using True "1.IH" [OF True] by (subst mismatch_loop.simps) (simp add: u)
  next
    case False
    then show ?thesis by (subst mismatch_loop.simps) simp
  qed
qed

lemma count_mismatches_spec: "count_mismatches expected seq = spec_mismatches expected seq"
  by (simp add: count_mismatches_def spec_mismatches_def mismatch_loop_count)

lemma spec_mismatches_same: "spec_mismatches xs xs = 0"
  by (simp add: spec_mismatches_def)

lemma completeTask_started:
  assumes "taskStates st i = Some cur" "truthy_time (startTime cur)"
  shows "taskStates (completeTask tasks i ov now st) i = Some (completed_state cur ov now)"
  using assms by (simp add: completeTask_def Let_def)

lemma step_complete_sequence:
  assumes "js_index tasks (currentIndex st) = Some task"
      and "taskStates st (task_id task) = Some cur"
      and "truthy_time (startTime cur)"
  shows "step tasks st (Complete now1 now2) = completeClick tasks task now1 now2 st"
  using assms by (simp add: step_def complete_disabled_def started_def)

text \<open>
  C3. When the Complete button is pressed on a started sequence task, the recorded error
  count is the number of positions, below the longer of the two lengths, at which the
  expected permutation and the accumulated selection differ (a missing position differs
  from a present one); the task is recorded as correct exactly when that number is zero
  and the lengths agree; the timer is cleared. A selection equal to the expected
  permutation gives correct and no errors.
\<close>

theorem sequence_completion:
  assumes "js_index tasks (currentIndex st) = Some task"
      and "sequenceAnswer task = Some expected"
      and "taskStates st (task_id task) = Some cur"
      and "truthy_time (startTime cur)"
  shows "\<exists>s'. taskStates (step tasks st (Complete now1 now2)) (task_id task) = Some s' \<and>
           errors s' = spec_mismatches expected (selected_seq (taskStates st) (task_id task)) \<and>
           correct s' =
             Some (spec_mismatches expected (selected_seq (taskStates st) (task_id task)) = 0 \<and>
                   length (selected_seq (taskStates st) (task_id task)) = length expected) \<and>
           startTime s' = None \<and>
           (selected_seq (taskStates st) (task_id task) = expected \<longrightarrow>
              correct s' = Some True \<and> errors s' = 0)"
proof -
  let ?seq = "selected_seq (taskStates st) (task_id task)"
  let ?m = "count_mismatches expected ?seq"
  let ?ov = "no_overrides\<lparr> ov_correct := Some (Some (?m = 0 \<and> length ?seq = length expected)),
                           ov_errors := Some ?m \<rparr>"
  let ?s' = "completed_state cur ?ov now2"
  have "step tasks st (Complete now1 now2) = completeClick tasks task now1 now2 st"
    using assms(1,3,4) by (rule step_complete_sequence)
  also have "\<dots> = completeTask tasks (task_id task) ?ov now2 st"
    using assms(2) by (simp add: completeClick_def Let_def)
  finally have "taskStates (step tasks st (Complete now1 now2)) (task_id task) = Some ?s'"
    using assms(3,4) by (simp add: completeTask_started)
  moreover have "errors ?s' = spec_mismatches expected ?seq"
    by (simp add: completed_state_def count_mismatches_spec)
  moreover have "correct ?s' = Some (spec_mismatches expected ?seq = 0 \<and> length ?seq = length expected)"
    by (simp add: completed_state_def count_mismatches_spec)
  moreover have "startTime ?s' = None"
    by (simp add: completed_state_def)
  moreover have "?seq = expected \<longrightarrow> correct ?s' = Some True \<and> errors ?s' = 0"
    by (simp add: completed_state_def count_mismatches_spec spec_mismatches_same)
  ultimately show ?thesis by blast
qed

theorem sequence_completion_witness:
  "js_index [demo_word_task] (currentIndex active_word_cog) = Some demo_word_task \<and>
   sequenceAnswer demo_word_task = Some [1, 0] \<and>
   selected_seq (taskStates active_word_cog) (task_id demo_word_task) = [1, 0] \<and>
   (\<exists>s'. taskStates (step [demo_word_task] active_word_cog (Complete 0 5200)) (task_id demo_word_task)
            = Some s' \<and>
         errors s' = 0 \<and> correct s' = Some True \<and> startTime s' = None)"
proof -
  let ?cur = "fresh_state\<lparr> startTime := Some 1000, sequence := Some [1, 0] \<rparr>"
  have a: "js_index [demo_word_task] (currentIndex active_word_cog) = Some demo_word_task"
    by (simp add: js_index_def active_word_cog_def init_cog_def)
  have b: "sequenceAnswer demo_word_task = Some [1, 0]"
    by (simp add: demo_word_task_def)
  have c: "taskStates active_word_cog (task_id demo_word_task) = Some ?cur"
    by (simp add: active_word_cog_def init_cog_def demo_word_task_def)
  have d: "truthy_time (startTime ?cur)"
    by (simp add: truthy_time_def)
  have e: "selected_seq (taskStates active_word_cog) (task_id demo_word_task) = [1, 0]"
    by (simp add: selected_seq_def c)
  show ?thesis
    using sequence_completion [OF a b c d, of 0 5200] a b e by auto
qed

lemma selections_ok_iff:
  "selections_ok tasks st \<longleftrightarrow>
     (\<forall>task \<in> set tasks. \<forall>s. taskStates st (task_id task) = Some s \<longrightarrow> selection_ok task s)"
  by (auto simp: selections_ok_def list_all_iff split: option.splits)

lemma selections_ok_same_states:
  assumes "taskStates st' = taskStates st" "selections_ok tasks st"
  shows "selections_ok tasks st'"
  using assms by (simp add: selections_ok_iff)

lemma selections_ok_upd:
  assumes "selections_ok tasks st"
      and "taskStates st' = (taskStates st)(i \<mapsto> s')"
      and "\<forall>task \<in> set tasks. task_id task = i \<longrightarrow> selection_ok task s'"
  shows "selections_ok tasks st'"
  using assms by (auto simp: selections_ok_iff)

lemma selection_ok_same_sequence:
  assumes "sequence s' = sequence s" "selection_ok task s"
  shows "selection_ok task s'"
  using assms by (auto simp: selection_ok_def split: option.splits)

lemma selection_ok_fresh: "selection_ok task fresh_state"
  by (simp add: selection_ok_def fresh_state_def split: option.splits)

lemma state_or_fresh_ok:
  assumes "selections_ok tasks st" "task \<in> set tasks"
  shows "selection_ok task (state_or_fresh (taskStates st) (task_id task))"
  using assms
  by (auto simp: selections_ok_iff state_or_fresh_def selection_ok_fresh split: option.splits)

lemma fresh_upd_ok:
  assumes "selections_ok tasks st"
      and "sequence s' = sequence (state_or_fresh (taskStates st) i)"
  shows "\<forall>u \<in> set tasks. task_id u = i \<longrightarrow> selection_ok u s'"
proof (intro ballI impI)
  fix u assume "u \<in> set tasks" "task_id u = i"
  then have "selection_ok u (state_or_fresh (taskStates st) i)"
    using state_or_fresh_ok [OF assms(1), of u] by simp
  then show "selection_ok u s'"
    by (rule selection_ok_same_sequence [OF assms(2)])
qed

lemma startTaskTimer_ok:
  assumes "selections_ok tasks st"
  shows "selections_ok tasks (startTaskTimer i now st)"
proof (rule selections_ok_upd [OF assms])
  show "taskStates (startTaskTimer i now st) =
          (taskStates st)(i \<mapsto> (state_or_fresh (taskStates st) i)\<lparr> startTime := Some now \<rparr>)"
    by (simp add: startTaskTimer_def)
  show "\<forall>task \<in> set tasks. task_id task = i \<longrightarrow>
          selection_ok task ((state_or_fresh (taskStates st) i)\<lparr> startTime := Some now \<rparr>)"
    by (rule fresh_upd_ok [OF assms]) simp
qed

lemma completed_state_sequence: "sequence (completed_state cur ov now) = sequence cur"
  by (simp add: completed_state_def)

lemma completeTask_ok:
  assumes "selections_ok tasks st"
  shows "selections_ok tasks (completeTask tasks' i ov now st)"
proof (cases "\<exists>cur. taskStates st i = Some cur \<and> truthy_time (startTime cur)")
  case True
  then obtain cur where c: "taskStates st i = Some cur" "truthy_time (startTime cur)" by blast
  have t: "taskStates (completeTask tasks' i ov now st) = (taskStates st)(i \<mapsto> completed_state cur ov now)"
    using c by (simp add: completeTask_def Let_def)
  have "\<forall>task \<in> set tasks. task_id task = i \<longrightarrow> selection_ok task (completed_state cur ov now)"
    using assms c(1)
    by (auto simp: selections_ok_iff intro: selection_ok_same_sequence [OF completed_state_sequence])
  then show ?thesis by (rule selections_ok_upd [OF assms t])
next
  case False
  then have "taskStates (completeTask tasks' i ov now st) = taskStates st"
    by (auto simp: completeTask_def Let_def split: option.splits)
  then show ?thesis using assms by (rule selections_ok_same_states)
qed

lemma same_id_same_task:
  assumes "distinct (map task_id tasks)" "task \<in> set tasks" "u \<in> set tasks" "task_id u = task_id task"
  shows "u = task"
  using assms by (meson distinct_map inj_on_def)

lemma selection_ok_append:
  assumes "sequenceAnswer task = Some expected"
      and "selection_ok task cur"
      and "x \<notin> set (case sequence cur of None \<Rightarrow> [] | Some q \<Rightarrow> q)"
      and "length (case sequence cur of None \<Rightarrow> [] | Some q \<Rightarrow> q) < length expected"
  shows "selection_ok task (cur\<lparr> sequence := Some ((case sequence cur of None \<Rightarrow> [] | Some q \<Rightarrow> q) @ [x]) \<rparr>)"
  using assms by (auto simp: selection_ok_def split: option.splits)

lemma handleOptionSelect_ok:
  assumes ok: "selections_ok tasks st"
      and d: "distinct (map task_id tasks)"
      and m: "task \<in> set tasks"
  shows "selections_ok tasks (handleOptionSelect tasks' task optionIndex now st)"
proof (cases "started (taskStates st) (task_id task)")
  case False
  then have "taskStates (handleOptionSelect tasks' task optionIndex now st) = taskStates st"
    by (simp add: handleOptionSelect_def)
  then show ?thesis using ok by (rule selections_ok_same_states)
next
  case True
  let ?cur = "state_or_fresh (taskStates st) (task_id task)"
  let ?seq = "case sequence ?cur of None \<Rightarrow> [] | Some q \<Rightarrow> q"
  have curok: "selection_ok task ?cur" using ok m by (rule state_or_fresh_ok)
  show ?thesis
  proof (cases "\<exists>expected opts. sequenceAnswer task = Some expected \<and> options task = Some opts")
    case True
    then obtain expected opts where s: "sequenceAnswer task = Some expected" "options task = Some opts"
      by blast
    show ?thesis
    proof (cases "optionIndex \<in> set ?seq \<or> length expected \<le> length ?seq")
      case True
      then have "handleOptionSelect tasks' task optionIndex now st = st"
        using \<open>started (taskStates st) (task_id task)\<close> s
        by (simp add: handleOptionSelect_def Let_def)
      then show ?thesis using ok by simp
    next
      case False
      let ?new = "?cur\<lparr> sequence := Some (?seq @ [optionIndex]) \<rparr>"
      have t: "taskStates (handleOptionSelect tasks' task optionIndex now st)
                 = (taskStates st)(task_id task \<mapsto> ?new)"
        using False \<open>started (taskStates st) (task_id task)\<close> s
        by (auto simp: handleOptionSelect_def Let_def)
      have n: "selection_ok task ?new"
        using s(1) curok False by (intro selection_ok_append) auto
      have "\<forall>u \<in> set tasks. task_id u = task_id task \<longrightarrow> selection_ok u ?new"
        using same_id_same_task [OF d m] n by blast
      then show ?thesis by (rule selections_ok_upd [OF ok t])
    qed
  next
    case False
    let ?isCorrect = "case correctAnswer task of Some c \<Rightarrow> Some (optionIndex = c) | None \<Rightarrow> None"
    let ?st1 = "st\<lparr> taskStates := (taskStates st)(task_id task \<mapsto>
                      ?cur\<lparr> selectedOption := Some optionIndex, correct := ?isCorrect \<rparr>) \<rparr>"
    have h: "handleOptionSelect tasks' task optionIndex now st =
               completeTask tasks' (task_id task)
                 (no_overrides\<lparr> ov_correct := Some ?isCorrect, ov_selectedOption := Some optionIndex \<rparr>)
                 now ?st1"
      using False \<open>started (taskStates st) (task_id task)\<close>
      by (auto simp: handleOptionSelect_def Let_def split: option.splits)
    have "\<forall>u \<in> set tasks. task_id u = task_id task \<longrightarrow>
            selection_ok u (?cur\<lparr> selectedOption := Some optionIndex, correct := ?isCorrect \<rparr>)"
      by (rule fresh_upd_ok [OF ok]) simp
    then have "selections_ok tasks ?st1"
      by (rule selections_ok_upd [OF ok, rotated]) simp
    then show ?thesis unfolding h by (rule completeTask_ok)
  qed
qed

lemma selection_ok_butlast:
  assumes "selection_ok task cur" "sequence cur = Some q"
  shows "selection_ok task (cur\<lparr> sequence := Some (butlast q) \<rparr>)"
  using assms by (auto simp: selection_ok_def distinct_butlast split: option.splits)

lemma undoClick_ok:
  assumes ok: "selections_ok tasks st"
  shows "selections_ok tasks (undoClick task st)"
proof (cases "\<exists>cur q. taskStates st (task_id task) = Some cur \<and> sequence cur = Some q \<and>
                       \<not> (sequenceAnswer task = None \<or> length q = 0)")
  case True
  then obtain cur q where c: "taskStates st (task_id task) = Some cur" "sequence cur = Some q"
      "\<not> (sequenceAnswer task = None \<or> length q = 0)" by blast
  have t: "taskStates (undoClick task st) =
             (taskStates st)(task_id task \<mapsto> cur\<lparr> sequence := Some (butlast q) \<rparr>)"
    using c by (auto simp: undoClick_def)
  have "\<forall>u \<in> set tasks. task_id u = task_id task \<longrightarrow>
          selection_ok u (cur\<lparr> sequence := Some (butlast q) \<rparr>)"
    using ok c(1,2) by (auto simp: selections_ok_iff intro: selection_ok_butlast)
  then show ?thesis by (rule selections_ok_upd [OF ok t])
next
  case False
  then have "undoClick task st = st"
    by (auto simp: undoClick_def split: option.splits)
  then show ?thesis using ok by simp
qed

lemma freeResponseChange_ok:
  assumes ok: "selections_ok tasks st"
  shows "selections_ok tasks (freeResponseChange task txt st)"
proof (rule selections_ok_upd [OF ok])
  show "taskStates (freeResponseChange task txt st) =
          (taskStates st)(task_id task \<mapsto>
             (state_or_fresh (taskStates st) (task_id task))\<lparr> freeResponse := Some txt \<rparr>)"
    by (simp add: freeResponseChange_def)
  show "\<forall>u \<in> set tasks. task_id u = task_id task \<longrightarrow>
          selection_ok u ((state_or_fresh (taskStates st) (task_id task))\<lparr> freeResponse := Some txt \<rparr>)"
    by (rule fresh_upd_ok [OF ok]) simp
qed

lemma completeClick_ok:
  assumes ok: "selections_ok tasks st"
  shows "selections_ok tasks (completeClick tasks' task now1 now2 st)"
  using ok
  by (auto simp: completeClick_def Let_def intro!: completeTask_ok startTaskTimer_ok
           split: option.splits)

lemma js_index_mem: "js_index xs i = Some x \<Longrightarrow> x \<in> set xs"
  by (auto simp: js_index_def split: if_splits)

lemma step_ok:
  assumes ok: "selections_ok tasks st" and d: "distinct (map task_id tasks)"
  shows "selections_ok tasks (step tasks st ev)"
proof (cases "js_index tasks (currentIndex st)")
  case None
  then show ?thesis using ok by (simp add: step_def)
next
  case (Some task)
  then have m: "task \<in> set tasks" by (rule js_index_mem)
  show ?thesis
  proof (cases ev)
    case (Begin now)
    then show ?thesis using Some ok by (simp add: step_def startTaskTimer_ok)
  next
    case (Select index now)
    then show ?thesis
      using Some ok handleOptionSelect_ok [OF ok d m]
      by (simp add: step_def split: option.splits)
  next
    case Undo
    then show ?thesis using Some ok by (simp add: step_def undoClick_ok)
  next
    case (Complete now1 now2)
    then show ?thesis using Some ok by (simp add: step_def completeClick_ok)
  next
    case (TypeText str)
    then show ?thesis using Some ok by (simp add: step_def freeResponseChange_ok)
  qed
qed

lemma run_ok:
  assumes "distinct (map task_id tasks)" "selections_ok tasks st"
  shows "selections_ok tasks (run tasks st evs)"
proof -
  have "selections_ok tasks (foldl (step tasks) st evs)"
    using assms(2)
  proof (induction evs arbitrary: st)
    case Nil
    then show ?case by simp
  next
    case (Cons ev evs)
    have "selections_ok tasks (step tasks st ev)"
      using Cons.prems assms(1) by (rule step_ok)
    then show ?case using Cons.IH by simp
  qed
  then show ?thesis by (simp add: run_def)
qed

lemma init_ok: "selections_ok tasks init_cog"
  by (simp add: selections_ok_iff init_cog_def)

lemma seq_of_state_or_fresh:
  "(case sequence (state_or_fresh ts i) of None \<Rightarrow> [] | Some q \<Rightarrow> q) = selected_seq ts i"
  by (simp add: state_or_fresh_def selected_seq_def fresh_state_def split: option.splits)

lemma handleOptionSelect_sequence_mode:
  assumes "sequenceAnswer task = Some expected" "options task = Some opts"
  shows "handleOptionSelect tasks task optionIndex now st =
           (if \<not> started (taskStates st) (task_id task)
            then st\<lparr> toasts := toasts st @ [''Start the task first''] \<rparr>
            else if optionIndex \<in> set (selected_seq (taskStates st) (task_id task)) \<or>
                    length expected \<le> length (selected_seq (taskStates st) (task_id task))
                 then st
                 else st\<lparr> taskStates := (taskStates st)(task_id task \<mapsto>
                          (state_or_fresh (taskStates st) (task_id task))
                            \<lparr> sequence := Some (selected_seq (taskStates st) (task_id task) @ [optionIndex]) \<rparr>) \<rparr>)"
  using assms unfolding handleOptionSelect_def Let_def seq_of_state_or_fresh by simp

text \<open>
  C8. Over any run of user events from the initial state, on a task list with distinct
  identifiers, every recorded selection of a sequence task is duplicate-free and no longer
  than the expected permutation. Selecting an option of a sequence task never moves the
  task pointer, never sets the finished flag and leaves start time, response time,
  correctness and error count of the task as they were; when the index is already
  selected or the selection has the expected length, the task states are unchanged (the
  whole state, when the task has been started). Undo on a non-empty selection removes its
  last element and changes nothing else, the start time in particular.
\<close>

theorem selection_discipline:
  "(distinct (map task_id tasks) \<longrightarrow> selections_ok tasks (run tasks init_cog evs)) \<and>
   (sequenceAnswer task = Some expected \<and> options task = Some opts \<longrightarrow>
      currentIndex (handleOptionSelect tasks task optionIndex now st) = currentIndex st \<and>
      isFinished (handleOptionSelect tasks task optionIndex now st) = isFinished st \<and>
      (optionIndex \<in> set (selected_seq (taskStates st) (task_id task)) \<or>
       length expected \<le> length (selected_seq (taskStates st) (task_id task)) \<longrightarrow>
         taskStates (handleOptionSelect tasks task optionIndex now st) = taskStates st \<and>
         (started (taskStates st) (task_id task) \<longrightarrow>
            handleOptionSelect tasks task optionIndex now st = st)) \<and>
      (\<forall>cur. taskStates st (task_id task) = Some cur \<longrightarrow>
         (\<exists>s'. taskStates (handleOptionSelect tasks task optionIndex now st) (task_id task) = Some s' \<and>
               startTime s' = startTime cur \<and> responseTimeMs s' = responseTimeMs cur \<and>
               correct s' = correct cur \<and> errors s' = errors cur))) \<and>
   (sequenceAnswer task \<noteq> None \<and> taskStates st (task_id task) = Some cur \<and>
    sequence cur = Some q \<and> q \<noteq> [] \<longrightarrow>
      undoClick task st =
        st\<lparr> taskStates := (taskStates st)(task_id task \<mapsto> cur\<lparr> sequence := Some (butlast q) \<rparr>) \<rparr> \<and>
      q = butlast q @ [last q] \<and>
      startTime (cur\<lparr> sequence := Some (butlast q) \<rparr>) = startTime cur)"
proof (intro conjI impI allI)
  assume "distinct (map task_id tasks)"
  then show "selections_ok tasks (run tasks init_cog evs)"
    using init_ok by (rule run_ok)
next
  assume h: "sequenceAnswer task = Some expected \<and> options task = Some opts"
  note m = handleOptionSelect_sequence_mode [of task expected opts tasks optionIndex now st]
  show "currentIndex (handleOptionSelect tasks task optionIndex now st) = currentIndex st"
    using h by (simp add: m)
  show "isFinished (handleOptionSelect tasks task optionIndex now st) = isFinished st"
    using h by (simp add: m)
next
  assume h: "sequenceAnswer task = Some expected \<and> options task = Some opts"
     and f: "optionIndex \<in> set (selected_seq (taskStates st) (task_id task)) \<or>
             length expected \<le> length (selected_seq (taskStates st) (task_id task))"
  note m = handleOptionSelect_sequence_mode [of task expected opts tasks optionIndex now st]
  show "taskStates (handleOptionSelect tasks task optionIndex now st) = taskStates st"
    using h f by (simp add: m)
  assume "started (taskStates st) (task_id task)"
  then show "handleOptionSelect tasks task optionIndex now st = st"
    using h f by (simp add: m)
next
  fix c
  assume h: "sequenceAnswer task = Some expected \<and> options task = Some opts"
     and c: "taskStates st (task_id task) = Some c"
  note m = handleOptionSelect_sequence_mode [of task expected opts tasks optionIndex now st]
  show "\<exists>s'. taskStates (handleOptionSelect tasks task optionIndex now st) (task_id task) = Some s' \<and>
               startTime s' = startTime c \<and> responseTimeMs s' = responseTimeMs c \<and>
               correct s' = correct c \<and> errors s' = errors c"
    using h c by (simp add: m state_or_fresh_def)
next
  assume u: "sequenceAnswer task \<noteq> None \<and> taskStates st (task_id task) = Some cur \<and>
    sequence cur = Some q \<and> q \<noteq> []"
  show "undoClick task st =
        st\<lparr> taskStates := (taskStates st)(task_id task \<mapsto> cur\<lparr> sequence := Some (butlast q) \<rparr>) \<rparr>"
    using u by (auto simp: undoClick_def)
  show "q = butlast q @ [last q]" using u by simp
  show "startTime (cur\<lparr> sequence := Some (butlast q) \<rparr>) = startTime cur" by simp
qed

lemma demo_ids: "map task_id demo_tasks = [''word-recall'', ''attention-sequence'', ''clock-drawing'']"
  by (simp add: demo_tasks_def demo_word_task_def demo_attention_task_def demo_clock_task_def)

lemma demo_run:
  "run demo_tasks init_cog demo_events =
     init_cog\<lparr> taskStates := [''word-recall'' \<mapsto> fresh_state\<lparr> startTime := Some 1000, sequence := Some [1] \<rparr>] \<rparr>"
  by (simp add: run_def demo_events_def demo_tasks_def step_def js_index_def init_cog_def
      startTaskTimer_def started_def truthy_time_def state_or_fresh_def fresh_state_def
      option_disabled_def selected_seq_def handleOptionSelect_def undoClick_def Let_def
      demo_word_task_def)

theorem selection_discipline_witness:
  "distinct (map task_id demo_tasks) \<and>
   selections_ok demo_tasks (run demo_tasks init_cog demo_events) \<and>
   selected_seq (taskStates (run demo_tasks init_cog demo_events)) ''word-recall'' = [1] \<and>
   handleOptionSelect demo_tasks demo_word_task 1 2000 active_word_cog = active_word_cog \<and>
   selected_seq (taskStates (undoClick demo_word_task active_word_cog)) ''word-recall'' = [1]"
proof -
  let ?cur = "fresh_state\<lparr> startTime := Some 1000, sequence := Some [1, 0] \<rparr>"
  note t = selection_discipline [of demo_tasks demo_events demo_word_task "[1, 0]"
      "[''Apple'', ''Moon'']" 1 2000 active_word_cog ?cur "[1, 0]"]
  have d: "distinct (map task_id demo_tasks)" by (simp add: demo_ids)
  have s: "sequenceAnswer demo_word_task = Some [1, 0] \<and> options demo_word_task = Some [''Apple'', ''Moon'']"
    by (simp add: demo_word_task_def)
  have c: "taskStates active_word_cog (task_id demo_word_task) = Some ?cur"
    by (simp add: active_word_cog_def init_cog_def demo_word_task_def)
  have q: "selected_seq (taskStates active_word_cog) (task_id demo_word_task) = [1, 0]"
    by (simp add: selected_seq_def c)
  have a: "started (taskStates active_word_cog) (task_id demo_word_task)"
    by (simp add: started_def c truthy_time_def)
  have 1: "selections_ok demo_tasks (run demo_tasks init_cog demo_events)"
    using t d by blast
  have 2: "handleOptionSelect demo_tasks demo_word_task 1 2000 active_word_cog = active_word_cog"
    using t s q a by simp
  have "undoClick demo_word_task active_word_cog =
          active_word_cog\<lparr> taskStates := (taskStates active_word_cog)(task_id demo_word_task \<mapsto>
             ?cur\<lparr> sequence := Some (butlast [1, 0]) \<rparr>) \<rparr>"
    using t s c by simp
  then have 3: "selected_seq (taskStates (undoClick demo_word_task active_word_cog)) ''word-recall'' = [1]"
    by (simp add: selected_seq_def demo_word_task_def)
  have 4: "selected_seq (taskStates (run demo_tasks init_cog demo_events)) ''word-recall'' = [1]"
    by (simp add: demo_run selected_seq_def)
  show ?thesis using d 1 2 3 4 by simp
qed

section \<open>Properties: task catalog\<close>

lemma indexOf_from_found:
  assumes "x \<in> set ys"
  shows "k \<le> indexOf_from ys x k \<and> indexOf_from ys x k < k + int (length ys) \<and>
         ys ! nat (indexOf_from ys x k - k) = x"
  using assms
proof (induction ys arbitrary: k)
  case Nil
  then show ?case by simp
next
  case (Cons y ys)
  show ?case
  proof (cases "y = x")
    case True
    then show ?thesis by simp
  next
    case False
    then have m: "x \<in> set ys" using Cons.prems by simp
    note ih = Cons.IH [OF m, of "k + 1"]
    have "nat (indexOf_from ys x (k + 1) - k) = Suc (nat (indexOf_from ys x (k + 1) - (k + 1)))"
      using ih by linarith
    then show ?thesis using False ih by simp
  qed
qed

lemma js_at_indexOf:
  assumes "x \<in> set xs"
  shows "js_at xs (indexOf xs x) = Some x"
  using indexOf_from_found [OF assms, of 0] by (simp add: js_at_def indexOf_def)

lemma set_insert_all_set: "set (set_insert_all seen xs) = set seen \<union> set xs"
  by (induction xs arbitrary: seen) auto

lemma set_insert_all_distinct: "distinct seen \<Longrightarrow> distinct (set_insert_all seen xs)"
  by (induction xs arbitrary: seen) auto

lemma array_from_set_set: "set (array_from_set xs) = set xs"
  by (simp add: array_from_set_def set_insert_all_set)

lemma array_from_set_distinct: "distinct (array_from_set xs)"
  by (simp add: array_from_set_def set_insert_all_distinct)

lemma digit_char_inj:
  assumes "a < 10" "b < 10" "char_of (48 + a) = (char_of (48 + b) :: char)"
  shows "a = (b::nat)"
proof -
  have "(48 + a) mod 256 = (48 + b) mod 256"
    using assms(3) by (simp add: char_of_eq_iff take_bit_eq_mod)
  moreover have "48 + a < 256" "48 + b < 256" using assms(1,2) by simp_all
  ultimately have "48 + a = 48 + b" by simp
  then show ?thesis by simp
qed

lemma js_String_nonempty: "js_String n \<noteq> []"
  by (subst js_String.simps) simp

lemma js_String_small: "n < 10 \<Longrightarrow> js_String n = [char_of (48 + n)]"
  by (subst js_String.simps) simp

lemma js_String_big: "\<not> n < 10 \<Longrightarrow> js_String n = js_String (n div 10) @ [char_of (48 + n mod 10)]"
  by (subst js_String.simps) simp

lemma js_String_inj: "js_String n = js_String m \<Longrightarrow> n = m"
proof (induction n arbitrary: m rule: js_String.induct)
  case (1 n)
  show ?case
  proof (cases "n < 10")
    case nsmall: True
    show ?thesis
    proof (cases "m < 10")
      case True
      then show ?thesis
        using "1.prems" nsmall by (simp add: js_String_small digit_char_inj)
    next
      case False
      then show ?thesis
        using "1.prems" nsmall js_String_nonempty [of "m div 10"]
        by (simp add: js_String_small js_String_big)
    qed
  next
    case nbig: False
    show ?thesis
    proof (cases "m < 10")
      case True
      then show ?thesis
        using "1.prems" nbig js_String_nonempty [of "n div 10"]
        by (simp add: js_String_small js_String_big)
    next
      case False
      have e: "js_String (n div 10) @ [char_of (48 + n mod 10)] =
               js_String (m div 10) @ [char_of (48 + m mod 10)]"
        using "1.prems" nbig False by (simp add: js_String_big)
      then have "js_String (n div 10) = js_String (m div 10)" by simp
      then have q: "n div 10 = m div 10" using "1.IH" nbig by blast
      have "char_of (48 + n mod 10) = (char_of (48 + m mod 10) :: char)" using e by simp
      then have r: "n mod 10 = m mod 10" by (intro digit_char_inj) simp_all
      show ?thesis using q r by (metis div_mult_mod_eq)
    qed
  qed
qed

lemma js_String_inj_on: "inj_on js_String A"
  by (rule inj_onI) (rule js_String_inj)

lemma shuffle_set: "is_shuffle f \<Longrightarrow> set (f xs) = set xs"
  by (metis is_shuffle_def mset_eq_setD)

lemma shuffle_distinct: "is_shuffle f \<Longrightarrow> distinct (f xs) = distinct xs"
  by (metis is_shuffle_def mset_eq_imp_distinct_iff)

lemma count_list_distinct:
  assumes "distinct xs" "x \<in> set xs"
  shows "count_list xs x = 1"
  using assms by (induction xs) auto

lemma wordRecall_fields:
  "options (makeWordRecallTask f i ttl words) = Some (f words) \<and>
   sequenceAnswer (makeWordRecallTask f i ttl words) = Some (map (indexOf (f words)) words)"
  by (simp add: makeWordRecallTask_def Let_def)

lemma digitSpan_fields:
  "options (makeDigitSpanTask g f i ttl digits) = Some (map js_String (digit_pool g f digits)) \<and>
   sequenceAnswer (makeDigitSpanTask g f i ttl digits) =
     Some (map (\<lambda>d. indexOf (map js_String (digit_pool g f digits)) (js_String d)) digits)"
  by (simp add: makeDigitSpanTask_def digit_pool_def Let_def)

lemma digit_pool_set:
  assumes "is_shuffle f"
  shows "set (digit_pool g f digits) = set digits \<union> set (take 5 (g [0, 1, 2, 3, 4, 5, 6, 7, 8, 9]))"
  using assms by (simp add: digit_pool_def shuffle_set array_from_set_set)

lemma digit_pool_distinct:
  assumes "is_shuffle f"
  shows "distinct (digit_pool g f digits)"
  using assms by (simp add: digit_pool_def shuffle_distinct array_from_set_distinct)

lemma wordRecall_recovers:
  assumes "is_shuffle h"
  shows "\<forall>k < length words. js_at (h words) (map (indexOf (h words)) words ! k) = Some (words ! k)"
  using assms by (simp add: js_at_indexOf shuffle_set)

lemma digitSpan_members:
  assumes "is_shuffle f"
  shows "\<forall>d \<in> set digits. js_String d \<in> set (map js_String (digit_pool g f digits))"
  using digit_pool_set [OF assms, of g digits] by simp

lemma digitSpan_distinct:
  assumes "is_shuffle f"
  shows "distinct (map js_String (digit_pool g f digits))"
  using digit_pool_distinct [OF assms, of g digits]
  by (simp add: distinct_map js_String_inj_on)

lemma wordRecall_valid:
  assumes "is_shuffle h"
  shows "valid_answer (makeWordRecallTask h i ttl words)"
  using assms wordRecall_fields [of h i ttl words]
  by (simp add: valid_answer_def list_all_iff js_at_indexOf shuffle_set)

lemma digitSpan_valid:
  assumes "is_shuffle f"
  shows "valid_answer (makeDigitSpanTask g f i ttl digits)"
  using digitSpan_members [OF assms, of digits g] digitSpan_fields [of g f i ttl digits]
  by (simp add: valid_answer_def list_all_iff js_at_indexOf)

lemma generated_valid:
  assumes "\<forall>k. is_shuffle (shuffleW k)" "\<forall>k. is_shuffle (shuffleD k)"
  shows "\<forall>t \<in> set (generateCognitiveTasks shuffleW shuffleD lexicon).
           task_type t = WordRecall \<or> task_type t = DigitSpan \<longrightarrow> valid_answer t"
  using assms
  by (simp add: generateCognitiveTasks_def Let_def wordRecall_valid digitSpan_valid)

lemma generated_ids:
  "map task_id (generateCognitiveTasks shuffleW shuffleD lexicon) =
     [''word-recall'', ''digit-span'', ''attention-sequence'', ''word-recall-2'',
      ''digit-span-reverse'', ''attention-visual'', ''clock-drawing'']"
  by (simp add: generateCognitiveTasks_def Let_def makeWordRecallTask_def makeDigitSpanTask_def)

lemma generated_ids_distinct:
  "distinct (map task_id (generateCognitiveTasks shuffleW shuffleD lexicon))"
  by (simp add: generated_ids)

text \<open>
  C4. With every shuffle returning a permutation of its input: the expected permutation
  of a generated word-recall task recovers the target words through the option list,
  position by position; so does that of a digit-span task for the decimal strings of the
  target digits, whose options are moreover pairwise distinct (no distractor repeats a
  target) and hold every target digit exactly once; and every expected index of a
  word-recall or digit-span task of the generated list is a position of its option list.
\<close>

theorem generated_answers_recover_targets:
  assumes "\<forall>k. is_shuffle (shuffleW k)" "\<forall>k. is_shuffle (shuffleD k)"
  shows "(\<exists>opts answer.
            options (makeWordRecallTask (shuffleW n) i ttl words) = Some opts \<and>
            sequenceAnswer (makeWordRecallTask (shuffleW n) i ttl words) = Some answer \<and>
            length answer = length words \<and>
            (\<forall>k < length words. js_at opts (answer ! k) = Some (words ! k))) \<and>
         (\<exists>opts answer.
            options (makeDigitSpanTask (shuffleD m) (shuffleD m') i' ttl' digits) = Some opts \<and>
            sequenceAnswer (makeDigitSpanTask (shuffleD m) (shuffleD m') i' ttl' digits) = Some answer \<and>
            length answer = length digits \<and>
            (\<forall>k < length digits. js_at opts (answer ! k) = Some (js_String (digits ! k))) \<and>
            distinct opts \<and>
            (\<forall>d \<in> set digits. count_list opts (js_String d) = 1)) \<and>
         (\<forall>t \<in> set (generateCognitiveTasks shuffleW shuffleD lexicon).
            task_type t = WordRecall \<or> task_type t = DigitSpan \<longrightarrow> valid_answer t)"
proof (intro conjI)
  have h: "is_shuffle (shuffleW n)" using assms(1) by simp
  show "\<exists>opts answer.
            options (makeWordRecallTask (shuffleW n) i ttl words) = Some opts \<and>
            sequenceAnswer (makeWordRecallTask (shuffleW n) i ttl words) = Some answer \<and>
            length answer = length words \<and>
            (\<forall>k < length words. js_at opts (answer ! k) = Some (words ! k))"
    using wordRecall_fields [of "shuffleW n" i ttl words] wordRecall_recovers [OF h, of words]
    by simp
next
  let ?g = "shuffleD m" and ?f = "shuffleD m'"
  let ?opts = "map js_String (digit_pool ?g ?f digits)"
  let ?answer = "map (\<lambda>d. indexOf ?opts (js_String d)) digits"
  have f: "is_shuffle ?f" using assms(2) by simp
  note mem = digitSpan_members [OF f, of digits ?g]
  note d = digitSpan_distinct [OF f, of ?g digits]
  have r: "\<forall>k < length digits. js_at ?opts (?answer ! k) = Some (js_String (digits ! k))"
    using mem by (simp add: js_at_indexOf)
  have c: "\<forall>d \<in> set digits. count_list ?opts (js_String d) = 1"
    using mem d by (simp add: count_list_distinct)
  show "\<exists>opts answer.
            options (makeDigitSpanTask ?g ?f i' ttl' digits) = Some opts \<and>
            sequenceAnswer (makeDigitSpanTask ?g ?f i' ttl' digits) = Some answer \<and>
            length answer = length digits \<and>
            (\<forall>k < length digits. js_at opts (answer ! k) = Some (js_String (digits ! k))) \<and>
            distinct opts \<and>
            (\<forall>d \<in> set digits. count_list opts (js_String d) = 1)"
    using digitSpan_fields [of ?g ?f i' ttl' digits] d r c by simp
next
  show "\<forall>t \<in> set (generateCognitiveTasks shuffleW shuffleD lexicon).
            task_type t = WordRecall \<or> task_type t = DigitSpan \<longrightarrow> valid_answer t"
    using assms by (rule generated_valid)
qed

lemma is_shuffle_rev: "is_shuffle rev"
  by (simp add: is_shuffle_def)

lemma demo_digit_task:
  "makeDigitSpanTask rev rev ''digit-span'' ''Digit Span'' [3, 9, 1, 4, 7] =
     \<lparr> task_id = ''digit-span'', task_type = DigitSpan, title = ''Digit Span'',
       description = ''Tap the digits in the exact order after Begin.'',
       prompt = ''3, 9, 1, 4, 7'',
       options = Some [''5'', ''6'', ''8'', ''7'', ''4'', ''1'', ''9'', ''3''],
       correctAnswer = None, durationMs = None,
       sequenceAnswer = Some [7, 6, 5, 4, 3] \<rparr>"
  by (simp add: makeDigitSpanTask_def Let_def array_from_set_def indexOf_def js_String_small char_of_def bit_0)

theorem generated_answers_recover_targets_witness:
  "(\<forall>k. is_shuffle ((\<lambda>k. rev) k :: string list \<Rightarrow> string list)) \<and>
   (\<forall>k. is_shuffle ((\<lambda>k. rev) k :: nat list \<Rightarrow> nat list)) \<and>
   options (makeDigitSpanTask rev rev ''digit-span'' ''Digit Span'' [3, 9, 1, 4, 7])
     = Some [''5'', ''6'', ''8'', ''7'', ''4'', ''1'', ''9'', ''3''] \<and>
   js_at [''5'', ''6'', ''8'', ''7'', ''4'', ''1'', ''9'', ''3''] ([7, 6, 5, 4, 3] ! 2) = Some (js_String ([3, 9, 1, 4, 7] ! 2)) \<and>
   count_list [''5'', ''6'', ''8'', ''7'', ''4'', ''1'', ''9'', ''3''] (js_String 9) = 1 \<and>
   valid_answer (generateCognitiveTasks (\<lambda>k. rev) (\<lambda>k. rev) english_words ! 3)"
proof -
  have w: "\<forall>k. is_shuffle ((\<lambda>k. rev) k :: string list \<Rightarrow> string list)"
    by (simp add: is_shuffle_rev)
  have n: "\<forall>k. is_shuffle ((\<lambda>k. rev) k :: nat list \<Rightarrow> nat list)"
    by (simp add: is_shuffle_rev)
  note t = generated_answers_recover_targets [where shuffleW = "\<lambda>k. rev" and shuffleD = "\<lambda>k. rev"
      and i = "''w''" and ttl = "''Word''" and words = "[''Moon'', ''Apple'']"
      and i' = "''digit-span''" and ttl' = "''Digit Span''" and digits = "[3, 9, 1, 4, 7]"
      and lexicon = english_words, OF w n]
  let ?opts = "[''5'', ''6'', ''8'', ''7'', ''4'', ''1'', ''9'', ''3'']"
  let ?task = "makeDigitSpanTask rev rev ''digit-span'' ''Digit Span'' [3, 9, 1, 4, 7]"
  have o: "options ?task = Some ?opts"
    by (subst demo_digit_task) simp
  have a: "sequenceAnswer ?task = Some [7, 6, 5, 4, 3]"
    by (subst demo_digit_task) simp
  from t [THEN conjunct2, THEN conjunct1]
  obtain opts answer where e: "options ?task = Some opts" "sequenceAnswer ?task = Some answer"
      "\<forall>k < length [3, 9, 1, 4, 7::nat]. js_at opts (answer ! k) = Some (js_String ([3, 9, 1, 4, 7] ! k))"
      "\<forall>d \<in> set [3, 9, 1, 4, 7::nat]. count_list opts (js_String d) = 1"
    by blast
  have oe: "opts = ?opts" using e(1) o by simp
  have ae: "answer = [7, 6, 5, 4, 3]" using e(2) a by simp
  have "(2::nat) < length [3, 9, 1, 4, 7::nat]" by simp
  then have 1: "js_at ?opts ([7, 6, 5, 4, 3] ! 2) = Some (js_String ([3, 9, 1, 4, 7] ! 2))"
    using e(3) unfolding oe ae by blast
  have "(9::nat) \<in> set [3, 9, 1, 4, 7::nat]" by simp
  then have 2: "count_list ?opts (js_String 9) = 1"
    using e(4) unfolding oe by blast
  let ?gen = "generateCognitiveTasks (\<lambda>k. rev) (\<lambda>k. rev) english_words"
  have m: "?gen ! 3 \<in> set ?gen"
    by (rule nth_mem) (simp add: generateCognitiveTasks_def Let_def)
  have ty: "task_type (?gen ! 3) = WordRecall"
    by (simp add: generateCognitiveTasks_def Let_def makeWordRecallTask_def)
  have 3: "valid_answer (?gen ! 3)"
    using t [THEN conjunct2, THEN conjunct2] m ty by blast
  show ?thesis
    by (intro conjI) (fact w, fact n, fact o, fact 1, fact 2, fact 3)
qed

section \<open>Properties: service client and results phase\<close>

lemma normalize_risk_known:
  "normalize_risk (Some ''Moderate'') = Some ''Medium'' \<and>
   normalize_risk (Some ''Low'') = Some ''Low'' \<and>
   normalize_risk (Some ''Medium'') = Some ''Medium'' \<and>
   normalize_risk (Some ''High'') = Some ''High''"
  by (simp add: normalize_risk_def)

lemma normalize_risk_other: "x \<noteq> Some ''Moderate'' \<Longrightarrow> normalize_risk x = x"
  by (simp add: normalize_risk_def)

lemma riskLevel_normalize_result:
  "riskLevel (normalize_result raw) = normalize_risk (nullish (raw_riskLevel raw) (raw_risk_level raw))"
  by (simp add: normalize_result_def Let_def)

lemma fetch_ok_object:
  assumes "ok response" "body response = JsonObject raw"
  shows "fetchAssessmentResult response = Inr (normalize_result raw)"
  using assms by (simp add: fetchAssessmentResult_def)

lemma fetch_returns:
  assumes "fetchAssessmentResult response = Inr r"
  shows "ok response \<and>
         ((\<exists>raw. body response = JsonObject raw \<and> r = normalize_result raw) \<or>
          (\<exists>s. body response = JsonString s \<and> r = normalize_result empty_raw))"
  using assms by (auto simp: fetchAssessmentResult_def split: if_splits Body.splits)

theorem severe_label_passes_through:
  "fetchAssessmentResult severe_response = Inr severe_result \<and>
   riskLevel severe_result = Some ''Severe'' \<and>
   \<not> canonical_risk (riskLevel severe_result)"
  by (simp add: fetchAssessmentResult_def severe_response_def severe_result_def normalize_result_def
      normalize_risk_def nullish_def or_default_def empty_raw_def canonical_risk_def Let_def)

text \<open>
  C9 (amended). The normalisation maps the label \<open>Moderate\<close> to \<open>Medium\<close> and leaves every
  other label as the server sent it, \<open>Low\<close>, \<open>Medium\<close> and \<open>High\<close> in particular; the
  risk level of a returned result is the normalised label of the response. Hence a
  returned result carries a level of the three-level scale whenever the label of the
  response is one of \<open>Low\<close>, \<open>Medium\<close>, \<open>High\<close>, \<open>Moderate\<close>.
\<close>

theorem risk_normalization:
  "normalize_risk (Some ''Moderate'') = Some ''Medium'' \<and>
   normalize_risk (Some ''Low'') = Some ''Low'' \<and>
   normalize_risk (Some ''Medium'') = Some ''Medium'' \<and>
   normalize_risk (Some ''High'') = Some ''High'' \<and>
   (label \<noteq> Some ''Moderate'' \<longrightarrow> normalize_risk label = label) \<and>
   (fetchAssessmentResult response = Inr r \<and> body response = JsonObject raw \<longrightarrow>
      riskLevel r = normalize_risk (nullish (raw_riskLevel raw) (raw_risk_level raw)) \<and>
      (nullish (raw_riskLevel raw) (raw_risk_level raw)
         \<in> {Some ''Low'', Some ''Medium'', Some ''High'', Some ''Moderate''} \<longrightarrow>
       canonical_risk (riskLevel r)))"
proof (intro conjI impI)
  show "normalize_risk (Some ''Moderate'') = Some ''Medium''"
       "normalize_risk (Some ''Low'') = Some ''Low''"
       "normalize_risk (Some ''Medium'') = Some ''Medium''"
       "normalize_risk (Some ''High'') = Some ''High''"
    using normalize_risk_known by simp_all
next
  assume "label \<noteq> Some ''Moderate''"
  then show "normalize_risk label = label" by (rule normalize_risk_other)
next
  assume h: "fetchAssessmentResult response = Inr r \<and> body response = JsonObject raw"
  then have r: "r = normalize_result raw"
    using fetch_returns [of response r] by auto
  show l: "riskLevel r = normalize_risk (nullish (raw_riskLevel raw) (raw_risk_level raw))"
    by (simp add: r riskLevel_normalize_result)
  assume "nullish (raw_riskLevel raw) (raw_risk_level raw)
         \<in> {Some ''Low'', Some ''Medium'', Some ''High'', Some ''Moderate''}"
  then show "canonical_risk (riskLevel r)"
    unfolding l using normalize_risk_known by (auto simp: canonical_risk_def)
qed

theorem risk_normalization_witness:
  "fetchAssessmentResult moderate_response = Inr (normalize_result (empty_raw\<lparr> raw_assessment_id := Some ''a1'',
                                      raw_risk_level := Some ''Moderate'',
                                      raw_probability := Some (1 / 2) \<rparr>)) \<and>
   riskLevel (normalize_result (empty_raw\<lparr> raw_assessment_id := Some ''a1'',
                                      raw_risk_level := Some ''Moderate'',
                                      raw_probability := Some (1 / 2) \<rparr>)) = Some ''Medium'' \<and>
   canonical_risk (riskLevel (normalize_result (empty_raw\<lparr> raw_assessment_id := Some ''a1'',
                                      raw_risk_level := Some ''Moderate'',
                                      raw_probability := Some (1 / 2) \<rparr>)))"
proof -
  let ?raw = "empty_raw\<lparr> raw_assessment_id := Some ''a1'', raw_risk_level := Some ''Moderate'',
                        raw_probability := Some (1 / 2) \<rparr>"
  let ?r = "normalize_result ?raw"
  have f: "fetchAssessmentResult moderate_response = Inr ?r"
    by (simp add: fetchAssessmentResult_def moderate_response_def)
  have b: "body moderate_response = JsonObject ?raw"
    by (simp add: moderate_response_def)
  have n: "nullish (raw_riskLevel ?raw) (raw_risk_level ?raw) = Some ''Moderate''"
    by (simp add: nullish_def empty_raw_def)
  note t = risk_normalization [of "Some ''Low''" moderate_response ?r ?raw]
  have 1: "riskLevel ?r = normalize_risk (nullish (raw_riskLevel ?raw) (raw_risk_level ?raw))"
    using t f b by blast
  have m: "normalize_risk (Some ''Moderate'') = Some ''Medium''" using t by blast
  have 2: "riskLevel ?r = Some ''Medium''" using 1 n m by simp
  have "nullish (raw_riskLevel ?raw) (raw_risk_level ?raw)
         \<in> {Some ''Low'', Some ''Medium'', Some ''High'', Some ''Moderate''}"
    using n by simp
  then have 3: "canonical_risk (riskLevel ?r)" using t f b by blast
  show ?thesis using f 2 3 by simp
qed

lemma poll_stop: "\<not> i < 15 \<Longrightarrow> poll w i st = (None, st)"
  by (subst poll.simps) simp

lemma poll_success:
  assumes "i < 15" "fetch_call (fetch_outcome w (fetch_count st)) = Inr r"
  shows "poll w i st = (Some r, st\<lparr> fetch_count := fetch_count st + 1 \<rparr>)"
  using assms by (subst poll.simps) simp

lemma poll_retry:
  assumes "i < 15" "fetch_fails w (fetch_count st)"
  shows "poll w i st =
           poll w (i + 1) (st\<lparr> fetch_count := fetch_count st + 1,
                                page_delays := page_delays st @ [1000] \<rparr>)"
  using assms by (subst poll.simps) (simp add: fetch_fails_def split: sum.splits)

lemma poll_first_success:
  assumes "k < 15 - i"
      and "\<forall>j < k. fetch_fails w (fetch_count st + j)"
      and "fetch_call (fetch_outcome w (fetch_count st + k)) = Inr r"
  shows "poll w i st =
           (Some r, st\<lparr> fetch_count := fetch_count st + k + 1,
                         page_delays := page_delays st @ replicate k 1000 \<rparr>)"
  using assms
proof (induction k arbitrary: i st)
  case 0
  then show ?case by (simp add: poll_success)
next
  case (Suc k)
  let ?st = "st\<lparr> fetch_count := fetch_count st + 1, page_delays := page_delays st @ [1000] \<rparr>"
  have i: "i < 15" using Suc.prems(1) by simp
  have f: "fetch_fails w (fetch_count st)" using Suc.prems(2) by force
  have 1: "k < 15 - (i + 1)" using Suc.prems(1) by simp
  have 2: "\<forall>j < k. fetch_fails w (fetch_count ?st + j)"
  proof (intro allI impI)
    fix j assume "j < k"
    then have "Suc j < Suc k" by simp
    then have "fetch_fails w (fetch_count st + Suc j)" using Suc.prems(2) by blast
    then show "fetch_fails w (fetch_count ?st + j)" by simp
  qed
  have 3: "fetch_call (fetch_outcome w (fetch_count ?st + k)) = Inr r"
    using Suc.prems(3) by simp
  have "poll w i st = poll w (i + 1) ?st" using i f by (rule poll_retry)
  also have "\<dots> = (Some r, ?st\<lparr> fetch_count := fetch_count ?st + k + 1,
                          page_delays := page_delays ?st @ replicate k 1000 \<rparr>)"
    using 1 2 3 by (rule Suc.IH)
  finally show ?case by (simp add: replicate_append_same)
qed

lemma poll_all_fail:
  assumes "\<forall>j < 15 - i. fetch_fails w (fetch_count st + j)"
  shows "poll w i st =
           (None, st\<lparr> fetch_count := fetch_count st + (15 - i),
                      page_delays := page_delays st @ replicate (15 - i) 1000 \<rparr>)"
  using assms
proof (induction n \<equiv> "15 - i" arbitrary: i st)
  case 0
  then show ?case by (simp add: poll_stop)
next
  case (Suc n)
  let ?st = "st\<lparr> fetch_count := fetch_count st + 1, page_delays := page_delays st @ [1000] \<rparr>"
  have i: "i < 15" using Suc.hyps(2) by simp
  have n: "n = 15 - (i + 1)" using Suc.hyps(2) by simp
  have f: "fetch_fails w (fetch_count st)" using Suc.prems Suc.hyps(2) by force
  have 2: "\<forall>j < 15 - (i + 1). fetch_fails w (fetch_count ?st + j)"
  proof (intro allI impI)
    fix j assume "j < 15 - (i + 1)"
    then have "Suc j < 15 - i" by simp
    then have "fetch_fails w (fetch_count st + Suc j)" using Suc.prems by blast
    then show "fetch_fails w (fetch_count ?st + j)" by simp
  qed
  have "poll w i st = poll w (i + 1) ?st" using i f by (rule poll_retry)
  also have "\<dots> = (None, ?st\<lparr> fetch_count := fetch_count ?st + (15 - (i + 1)),
                          page_delays := page_delays ?st @ replicate (15 - (i + 1)) 1000 \<rparr>)"
    using n 2 by (rule Suc.hyps(1))
  finally show ?case
    using Suc.hyps(2) [symmetric] n by (simp add: replicate_append_same)
qed

lemma poll_bound: "fetch_count (snd (poll w i st)) \<le> fetch_count st + (15 - i)"
proof (induction w i st rule: poll.induct)
  case (1 w i st)
  show ?case
  proof (cases "i < 15")
    case False
    then show ?thesis by (simp add: poll_stop)
  next
    case True
    show ?thesis
    proof (cases "fetch_call (fetch_outcome w (fetch_count st))")
      case (Inr r)
      then show ?thesis using True by (simp add: poll_success)
    next
      case (Inl e)
      then have f: "fetch_fails w (fetch_count st)" by (simp add: fetch_fails_def)
      show ?thesis
        using "1.IH" [OF True Inl] True by (simp add: poll_retry [OF True f])
    qed
  qed
qed

lemma poll_frame: "\<exists>n d. snd (poll w i st) = st\<lparr> fetch_count := n, page_delays := d \<rparr>"
proof (induction w i st rule: poll.induct)
  case (1 w i st)
  show ?case
  proof (cases "i < 15")
    case False
    then have "snd (poll w i st) = st\<lparr> fetch_count := fetch_count st, page_delays := page_delays st \<rparr>"
      by (simp add: poll_stop)
    then show ?thesis by blast
  next
    case True
    show ?thesis
    proof (cases "fetch_call (fetch_outcome w (fetch_count st))")
      case (Inr r)
      then have "snd (poll w i st) = st\<lparr> fetch_count := fetch_count st + 1, page_delays := page_delays st \<rparr>"
        using True by (simp add: poll_success)
      then show ?thesis by blast
    next
      case (Inl e)
      then have f: "fetch_fails w (fetch_count st)" by (simp add: fetch_fails_def)
      obtain n d where
        "snd (poll w (i + 1) (st\<lparr> fetch_count := fetch_count st + 1,
                                   page_delays := page_delays st @ [1000] \<rparr>))
           = (st\<lparr> fetch_count := fetch_count st + 1, page_delays := page_delays st @ [1000] \<rparr>)
               \<lparr> fetch_count := n, page_delays := d \<rparr>"
        using "1.IH" [OF True Inl] by blast
      then have "snd (poll w i st) = st\<lparr> fetch_count := n, page_delays := d \<rparr>"
        by (simp add: poll_retry [OF True f])
      then show ?thesis by blast
    qed
  qed
qed

lemma results_phase_polls:
  assumes "submit_outcome w = None" "predict_outcome w = None"
  shows "results_phase w st = Inr (after_poll (poll w 0 (before_poll st)))"
  using assms
  by (simp add: results_phase_def before_poll_def after_poll_def Let_def split: prod.splits)

lemma handle_polls:
  assumes "aid \<noteq> None \<and> aid \<noteq> Some [] \<and> user \<noteq> None"
      and "submit_outcome w = None" "predict_outcome w = None"
  shows "handleCognitiveComplete w aid user st =
           (after_poll (poll w 0 (before_poll st)))\<lparr> isLoading := False \<rparr>"
  using assms(1) by (auto simp: handleCognitiveComplete_def results_phase_polls [OF assms(2,3)])

lemma before_poll_fields:
  "fetch_count (before_poll st) = fetch_count st \<and>
   page_delays (before_poll st) = page_delays st \<and>
   page_console (before_poll st) = page_console st \<and>
   result (before_poll st) = result st \<and>
   page_toasts (before_poll st) = page_toasts st @ [(''Cognitive data captured'', [])]"
  by (simp add: before_poll_def toast_def advanceStep_def)

lemma after_poll_fields:
  "fetch_count (after_poll (f, s)) = fetch_count s \<and>
   page_delays (after_poll (f, s)) = page_delays s \<and>
   page_console (after_poll (f, s)) = page_console s \<and>
   \<not> isResultPending (after_poll (f, s))"
  by (simp add: after_poll_def toast_def saveAssessmentResult_def Let_def split: option.splits)

lemma after_poll_found:
  "result (after_poll (Some r, s)) = Some r"
  by (simp add: after_poll_def saveAssessmentResult_def Let_def)

lemma after_poll_none:
  "result (after_poll (None, s)) = result s \<and>
   page_toasts (after_poll (None, s)) =
     page_toasts s @ [(''Prediction pending'',
                       ''Result is taking longer than usual. Please wait a few seconds and retry.'')]"
  by (simp add: after_poll_def toast_def)

lemma never_ready_fails: "fetch_fails never_ready_world k"
  by (simp add: fetch_fails_def fetch_call_def never_ready_world_def fetchAssessmentResult_def
      not_ready_def)

lemma never_ready_run:
  "handleCognitiveComplete never_ready_world (Some ''a1'') (Some demo_user) init_page =
     (after_poll (None, (before_poll init_page)\<lparr> fetch_count := 15,
                           page_delays := replicate 15 1000 \<rparr>))\<lparr> isLoading := False \<rparr>"
proof -
  have g: "Some ''a1'' \<noteq> None \<and> Some ''a1'' \<noteq> Some [] \<and> Some demo_user \<noteq> None" by simp
  have s: "submit_outcome never_ready_world = None" "predict_outcome never_ready_world = None"
    by (simp_all add: never_ready_world_def)
  have f: "\<forall>j < 15 - 0. fetch_fails never_ready_world (fetch_count (before_poll init_page) + j)"
    by (simp add: never_ready_fails)
  have c: "fetch_count (before_poll init_page) = 0" "page_delays (before_poll init_page) = []"
    by (simp_all add: before_poll_fields init_page_def)
  show ?thesis
    unfolding handle_polls [OF g s] poll_all_fail [OF f] by (simp add: c)
qed

theorem pending_flag_cleared_after_timeout:
  "fetch_count (handleCognitiveComplete never_ready_world (Some ''a1'') (Some demo_user) init_page) = 15 \<and>
   \<not> isResultPending (handleCognitiveComplete never_ready_world (Some ''a1'') (Some demo_user) init_page)"
  unfolding never_ready_run by (simp add: after_poll_fields)

text \<open>
  C1 (amended). With a session in place and the submission and the prediction request
  accepted, the results phase issues at most 15 result fetches, throws nothing (the
  \<open>try\<close> block ends normally and nothing is logged as an error) and ends with the
  pending flag cleared. When the first fetch to succeed is the one after \<open>k < 15\<close> failed
  ones, exactly \<open>k + 1\<close> fetches are issued, \<open>k\<close> delays of 1000 ms are awaited, one
  after each failed fetch, and the result is stored. When all 15 fetches fail, 15 delays
  of 1000 ms are awaited, the result is left as it was, and the last notice shown is
  ``Prediction pending'', not an error.
\<close>

theorem polling_protocol:
  assumes "aid \<noteq> None \<and> aid \<noteq> Some [] \<and> user \<noteq> None"
      and "submit_outcome w = None" and "predict_outcome w = None"
  shows "fetch_count (handleCognitiveComplete w aid user st) \<le> fetch_count st + 15 \<and>
         (\<exists>s. results_phase w st = Inr s) \<and>
         page_console (handleCognitiveComplete w aid user st) = page_console st \<and>
         \<not> isResultPending (handleCognitiveComplete w aid user st) \<and>
         (\<forall>k r. k < 15 \<and> (\<forall>j < k. fetch_fails w (fetch_count st + j)) \<and>
                fetch_call (fetch_outcome w (fetch_count st + k)) = Inr r \<longrightarrow>
                fetch_count (handleCognitiveComplete w aid user st) = fetch_count st + k + 1 \<and>
                page_delays (handleCognitiveComplete w aid user st)
                  = page_delays st @ replicate k 1000 \<and>
                result (handleCognitiveComplete w aid user st) = Some r) \<and>
         ((\<forall>j < 15. fetch_fails w (fetch_count st + j)) \<longrightarrow>
            fetch_count (handleCognitiveComplete w aid user st) = fetch_count st + 15 \<and>
            page_delays (handleCognitiveComplete w aid user st)
              = page_delays st @ replicate 15 1000 \<and>
            result (handleCognitiveComplete w aid user st) = result st \<and>
            page_toasts (handleCognitiveComplete w aid user st) =
              page_toasts st @
                [(''Cognitive data captured'', []),
                 (''Prediction pending'',
                  ''Result is taking longer than usual. Please wait a few seconds and retry.'')])"
proof -
  let ?b = "before_poll st"
  let ?H = "handleCognitiveComplete w aid user st"
  note bf = before_poll_fields [of st]
  have H: "?H = (after_poll (poll w 0 ?b))\<lparr> isLoading := False \<rparr>"
    using assms by (rule handle_polls)
  obtain f s where p: "poll w 0 ?b = (f, s)" by (cases "poll w 0 ?b")
  obtain n d where fr: "s = ?b\<lparr> fetch_count := n, page_delays := d \<rparr>"
    using poll_frame [of w 0 ?b] p by auto
  have 1: "fetch_count ?H \<le> fetch_count st + 15"
    using poll_bound [of w 0 ?b] p bf by (simp add: H after_poll_fields)
  have 2: "\<exists>s. results_phase w st = Inr s"
    using results_phase_polls [OF assms(2,3)] by blast
  have 3: "page_console ?H = page_console st"
    using bf by (simp add: H p after_poll_fields fr)
  have 4: "\<not> isResultPending ?H"
    by (simp add: H p after_poll_fields)
  have 5: "\<forall>k r. k < 15 \<and> (\<forall>j < k. fetch_fails w (fetch_count st + j)) \<and>
                fetch_call (fetch_outcome w (fetch_count st + k)) = Inr r \<longrightarrow>
                fetch_count ?H = fetch_count st + k + 1 \<and>
                page_delays ?H = page_delays st @ replicate k 1000 \<and>
                result ?H = Some r"
  proof (intro allI impI)
    fix k r
    assume a: "k < 15 \<and> (\<forall>j < k. fetch_fails w (fetch_count st + j)) \<and>
                fetch_call (fetch_outcome w (fetch_count st + k)) = Inr r"
    have k: "k < 15 - 0" using a by simp
    have fl: "\<forall>j < k. fetch_fails w (fetch_count ?b + j)" using a bf by simp
    have ok: "fetch_call (fetch_outcome w (fetch_count ?b + k)) = Inr r" using a bf by simp
    note q = poll_first_success [OF k fl ok]
    show "fetch_count ?H = fetch_count st + k + 1 \<and>
          page_delays ?H = page_delays st @ replicate k 1000 \<and>
          result ?H = Some r"
      using bf by (simp add: H q after_poll_fields after_poll_found)
  qed
  have 6: "(\<forall>j < 15. fetch_fails w (fetch_count st + j)) \<longrightarrow>
            fetch_count ?H = fetch_count st + 15 \<and>
            page_delays ?H = page_delays st @ replicate 15 1000 \<and>
            result ?H = result st \<and>
            page_toasts ?H =
              page_toasts st @
                [(''Cognitive data captured'', []),
                 (''Prediction pending'',
                  ''Result is taking longer than usual. Please wait a few seconds and retry.'')]"
  proof
    assume a: "\<forall>j < 15. fetch_fails w (fetch_count st + j)"
    have fl: "\<forall>j < 15 - 0. fetch_fails w (fetch_count ?b + j)" using a bf by simp
    note q = poll_all_fail [OF fl]
    show "fetch_count ?H = fetch_count st + 15 \<and>
            page_delays ?H = page_delays st @ replicate 15 1000 \<and>
            result ?H = result st \<and>
            page_toasts ?H =
              page_toasts st @
                [(''Cognitive data captured'', []),
                 (''Prediction pending'',
                  ''Result is taking longer than usual. Please wait a few seconds and retry.'')]"
      using bf by (simp add: H q after_poll_fields after_poll_none)
  qed
  show ?thesis using 1 2 3 4 5 6 by (intro conjI)
qed

lemma ready_at_15_fails: "j < 14 \<Longrightarrow> fetch_fails ready_at_15_world j"
  by (simp add: fetch_fails_def fetch_call_def ready_at_15_world_def fetchAssessmentResult_def
      not_ready_def)

lemma ready_at_15_succeeds:
  "fetch_call (fetch_outcome ready_at_15_world 14) =
     Inr (normalize_result (empty_raw\<lparr> raw_assessment_id := Some ''a1'',
                                        raw_risk_level := Some ''Moderate'',
                                        raw_probability := Some (1 / 2) \<rparr>))"
  by (simp add: fetch_call_def ready_at_15_world_def fetchAssessmentResult_def moderate_response_def)

theorem polling_protocol_witness:
  "fetch_count (handleCognitiveComplete ready_at_15_world (Some ''a1'') (Some demo_user) init_page) = 15 \<and>
   page_delays (handleCognitiveComplete ready_at_15_world (Some ''a1'') (Some demo_user) init_page)
     = replicate 14 1000 \<and>
   result (handleCognitiveComplete ready_at_15_world (Some ''a1'') (Some demo_user) init_page)
     = Some (normalize_result (empty_raw\<lparr> raw_assessment_id := Some ''a1'',
                                             raw_risk_level := Some ''Moderate'',
                                             raw_probability := Some (1 / 2) \<rparr>)) \<and>
   \<not> isResultPending (handleCognitiveComplete ready_at_15_world (Some ''a1'') (Some demo_user) init_page) \<and>
   page_delays (handleCognitiveComplete never_ready_world (Some ''a1'') (Some demo_user) init_page)
     = replicate 15 1000 \<and>
   page_toasts (handleCognitiveComplete never_ready_world (Some ''a1'') (Some demo_user) init_page)
     = [(''Cognitive data captured'', []),
        (''Prediction pending'',
         ''Result is taking longer than usual. Please wait a few seconds and retry.'')]"
proof -
  let ?r = "normalize_result (empty_raw\<lparr> raw_assessment_id := Some ''a1'',
                                          raw_risk_level := Some ''Moderate'',
                                          raw_probability := Some (1 / 2) \<rparr>)"
  have g: "Some ''a1'' \<noteq> None \<and> Some ''a1'' \<noteq> Some [] \<and> Some demo_user \<noteq> None" by simp
  have s: "submit_outcome ready_at_15_world = None" "predict_outcome ready_at_15_world = None"
    by (simp_all add: ready_at_15_world_def)
  have s': "submit_outcome never_ready_world = None" "predict_outcome never_ready_world = None"
    by (simp_all add: never_ready_world_def)
  have i: "fetch_count init_page = 0" "page_delays init_page = []" "page_toasts init_page = []"
    by (simp_all add: init_page_def)
  note t = polling_protocol [OF g s, of init_page]
  note t' = polling_protocol [OF g s', of init_page]
  have a: "(14::nat) < 15 \<and> (\<forall>j < 14. fetch_fails ready_at_15_world (fetch_count init_page + j)) \<and>
           fetch_call (fetch_outcome ready_at_15_world (fetch_count init_page + 14)) = Inr ?r"
    by (simp add: i ready_at_15_fails ready_at_15_succeeds)
  have b: "\<forall>j < 15. fetch_fails never_ready_world (fetch_count init_page + j)"
    by (simp add: never_ready_fails)
  have 1: "fetch_count (handleCognitiveComplete ready_at_15_world (Some ''a1'') (Some demo_user) init_page)
             = fetch_count init_page + 14 + 1 \<and>
           page_delays (handleCognitiveComplete ready_at_15_world (Some ''a1'') (Some demo_user) init_page)
             = page_delays init_page @ replicate 14 1000 \<and>
           result (handleCognitiveComplete ready_at_15_world (Some ''a1'') (Some demo_user) init_page)
             = Some ?r"
    using t a by blast
  have 2: "\<not> isResultPending (handleCognitiveComplete ready_at_15_world (Some ''a1'') (Some demo_user) init_page)"
    using t by blast
  have 3: "page_delays (handleCognitiveComplete never_ready_world (Some ''a1'') (Some demo_user) init_page)
             = page_delays init_page @ replicate 15 1000 \<and>
           page_toasts (handleCognitiveComplete never_ready_world (Some ''a1'') (Some demo_user) init_page) =
              page_toasts init_page @
                [(''Cognitive data captured'', []),
                 (''Prediction pending'',
                  ''Result is taking longer than usual. Please wait a few seconds and retry.'')]"
    using t' b by blast
  show ?thesis using 1 2 3 by (simp add: i)
qed

section \<open>Properties: capture and upload pipeline\<close>

lemma upload_stop: "\<not> i < 3 \<Longrightarrow> upload_loop f p i e st = (e, st)"
  by (subst upload_loop.simps) simp

lemma upload_success:
  assumes "i < 3" "f (length (uploads st)) p = None"
  shows "upload_loop f p i e st = (Undefined, st\<lparr> uploads := uploads st @ [p] \<rparr>)"
  using assms by (subst upload_loop.simps) simp

lemma upload_retry:
  assumes "i < 3" "f (length (uploads st)) p = Some e'"
  shows "upload_loop f p i e st =
           upload_loop f p (i + 1) e'
             (st\<lparr> uploads := uploads st @ [p], rec_delays := rec_delays st @ [600] \<rparr>)"
  using assms by (subst upload_loop.simps) simp

lemma upload_first_success:
  assumes "k < 3 - i"
      and "\<forall>j < k. f (length (uploads st) + j) p \<noteq> None"
      and "f (length (uploads st) + k) p = None"
  shows "upload_loop f p i e st =
           (Undefined, st\<lparr> uploads := uploads st @ replicate (k + 1) p,
                            rec_delays := rec_delays st @ replicate k 600 \<rparr>)"
  using assms
proof (induction k arbitrary: i e st)
  case 0
  then show ?case by (simp add: upload_success)
next
  case (Suc k)
  let ?st = "st\<lparr> uploads := uploads st @ [p], rec_delays := rec_delays st @ [600] \<rparr>"
  have i: "i < 3" using Suc.prems(1) by simp
  have "f (length (uploads st) + 0) p \<noteq> None" using Suc.prems(2) by blast
  then obtain e' where f: "f (length (uploads st)) p = Some e'" by auto
  have 1: "k < 3 - (i + 1)" using Suc.prems(1) by simp
  have 2: "\<forall>j < k. f (length (uploads ?st) + j) p \<noteq> None"
  proof (intro allI impI)
    fix j assume "j < k"
    then have "Suc j < Suc k" by simp
    then have "f (length (uploads st) + Suc j) p \<noteq> None" using Suc.prems(2) by blast
    then show "f (length (uploads ?st) + j) p \<noteq> None" by simp
  qed
  have 3: "f (length (uploads ?st) + k) p = None" using Suc.prems(3) by simp
  have "upload_loop f p i e st = upload_loop f p (i + 1) e' ?st" using i f by (rule upload_retry)
  also have "\<dots> = (Undefined, ?st\<lparr> uploads := uploads ?st @ replicate (k + 1) p,
                                   rec_delays := rec_delays ?st @ replicate k 600 \<rparr>)"
    using 1 2 3 by (rule Suc.IH)
  finally show ?case by (simp add: replicate_append_same)
qed

lemma upload_three_failures:
  assumes "f (length (uploads st)) p = Some e0"
      and "f (length (uploads st) + 1) p = Some e1"
      and "f (length (uploads st) + 2) p = Some e2"
  shows "upload_loop f p 0 e st =
           (e2, st\<lparr> uploads := uploads st @ [p, p, p],
                     rec_delays := rec_delays st @ [600, 600, 600] \<rparr>)"
proof -
  let ?s1 = "st\<lparr> uploads := uploads st @ [p], rec_delays := rec_delays st @ [600] \<rparr>"
  let ?s2 = "?s1\<lparr> uploads := uploads ?s1 @ [p], rec_delays := rec_delays ?s1 @ [600] \<rparr>"
  let ?s3 = "?s2\<lparr> uploads := uploads ?s2 @ [p], rec_delays := rec_delays ?s2 @ [600] \<rparr>"
  have "upload_loop f p 0 e st = upload_loop f p (0 + 1) e0 ?s1"
    using assms(1) by (intro upload_retry) simp_all
  also have "\<dots> = upload_loop f p (0 + 1 + 1) e1 ?s2"
    using assms(2) by (intro upload_retry) simp_all
  also have "\<dots> = upload_loop f p (0 + 1 + 1 + 1) e2 ?s3"
    using assms(3) by (intro upload_retry) simp_all
  also have "\<dots> = (e2, ?s3)" by (rule upload_stop) simp
  finally show ?thesis by simp
qed

lemma upload_bound:
  "length (uploads (snd (upload_loop f p i e st))) \<le> length (uploads st) + (3 - i)"
proof (induction f p i e st rule: upload_loop.induct)
  case (1 f p i e st)
  show ?case
  proof (cases "i < 3")
    case False
    then show ?thesis by (simp add: upload_stop)
  next
    case True
    show ?thesis
    proof (cases "f (length (uploads st)) p")
      case None
      then show ?thesis using True by (simp add: upload_success)
    next
      case (Some e')
      show ?thesis
        using "1.IH" [OF True Some] True
        by (simp add: upload_retry [where f = f and st = st and p = p, OF True Some])
    qed
  qed
qed

lemma handle_proceeds:
  assumes "js_index tasks cIndex = Some task" "blob_size ev \<noteq> 0"
  shows "handleDataAvailable f tasks cIndex cElapsed ev st =
           (let r = upload_loop f (chunk_payload task cElapsed ev st) 0 Undefined
                      (st\<lparr> chunksRef := chunksRef st @ [ev] \<rparr>)
            in if truthy (fst r)
               then (snd r)\<lparr> rec_console := rec_console (snd r) @ [fst r],
                          rec_toasts := rec_toasts (snd r) @
                            [(''Upload failed'', ''Could not upload speech sample. Please try again.'')] \<rparr>
               else if int cIndex < int (length tasks) - 1
                    then (snd r)\<lparr> chunksRef := [], rec_currentIndex := rec_currentIndex (snd r) + 1,
                                   elapsedMs := 0 \<rparr>
                    else (snd r)\<lparr> chunksRef := [], completions := completions (snd r) + 1 \<rparr>)"
  using assms
  by (simp add: handleDataAvailable_def chunk_payload_def Let_def split: prod.splits)

text \<open>
  One run of the handler in which an upload attempt succeeds, after \<open>k < 3\<close> failed
  ones: \<open>k + 1\<close> attempts have been made and \<open>k\<close> delays of 600 ms awaited, and the
  chunk buffer is empty. The choice between advancing and completing is made on the
  index \<open>cIndex\<close> that the callback captured, whatever the recorder's index is by then:
  when tasks remain after position \<open>cIndex\<close> the recorder's index grows by one and the
  elapsed-time counter is zero; otherwise the completion callback is called once.
\<close>

theorem upload_success_advances:
  assumes "js_index tasks cIndex = Some task" and "blob_size ev \<noteq> 0"
      and "k < 3"
      and "\<forall>j < k. onUpload (length (uploads st) + j) (chunk_payload task cElapsed ev st) \<noteq> None"
      and "onUpload (length (uploads st) + k) (chunk_payload task cElapsed ev st) = None"
  shows "uploads (handleDataAvailable onUpload tasks cIndex cElapsed ev st)
           = uploads st @ replicate (k + 1) (chunk_payload task cElapsed ev st) \<and>
         rec_delays (handleDataAvailable onUpload tasks cIndex cElapsed ev st)
           = rec_delays st @ replicate k 600 \<and>
         chunksRef (handleDataAvailable onUpload tasks cIndex cElapsed ev st) = [] \<and>
         rec_console (handleDataAvailable onUpload tasks cIndex cElapsed ev st) = rec_console st \<and>
         (int cIndex < int (length tasks) - 1 \<longrightarrow>
            rec_currentIndex (handleDataAvailable onUpload tasks cIndex cElapsed ev st)
              = rec_currentIndex st + 1 \<and>
            elapsedMs (handleDataAvailable onUpload tasks cIndex cElapsed ev st) = 0 \<and>
            completions (handleDataAvailable onUpload tasks cIndex cElapsed ev st) = completions st) \<and>
         (\<not> int cIndex < int (length tasks) - 1 \<longrightarrow>
            completions (handleDataAvailable onUpload tasks cIndex cElapsed ev st)
              = completions st + 1 \<and>
            rec_currentIndex (handleDataAvailable onUpload tasks cIndex cElapsed ev st)
              = rec_currentIndex st \<and>
            elapsedMs (handleDataAvailable onUpload tasks cIndex cElapsed ev st) = elapsedMs st)"
proof -
  let ?p = "chunk_payload task cElapsed ev st"
  let ?st1 = "st\<lparr> chunksRef := chunksRef st @ [ev] \<rparr>"
  have k: "k < 3 - 0" using assms(3) by simp
  have fl: "\<forall>j < k. onUpload (length (uploads ?st1) + j) ?p \<noteq> None" using assms(4) by simp
  have ok: "onUpload (length (uploads ?st1) + k) ?p = None" using assms(5) by simp
  note q = upload_first_success [where f = onUpload and st = ?st1 and p = ?p and e = Undefined,
      OF k fl ok]
  show ?thesis
    unfolding handle_proceeds [OF assms(1,2)] q by (simp add: Let_def)
qed

theorem upload_success_advances_witness:
  "length (uploads (handleDataAvailable fail_twice demo_speech_tasks 0 0 demo_chunk init_recorder)) = 3 \<and>
   rec_delays (handleDataAvailable fail_twice demo_speech_tasks 0 0 demo_chunk init_recorder) = [600, 600] \<and>
   chunksRef (handleDataAvailable fail_twice demo_speech_tasks 0 0 demo_chunk init_recorder) = [] \<and>
   rec_currentIndex (handleDataAvailable fail_twice demo_speech_tasks 0 0 demo_chunk init_recorder) = 1 \<and>
   elapsedMs (handleDataAvailable fail_twice demo_speech_tasks 0 0 demo_chunk init_recorder) = 0 \<and>
   completions (handleDataAvailable fail_twice demo_speech_tasks 1 0 demo_chunk init_recorder) = 1"
proof -
  let ?p = "chunk_payload (demo_speech_tasks ! 0) 0 demo_chunk init_recorder"
  let ?p1 = "chunk_payload (demo_speech_tasks ! 1) 0 demo_chunk init_recorder"
  have t0: "js_index demo_speech_tasks 0 = Some (demo_speech_tasks ! 0)"
    by (simp add: js_index_def demo_speech_tasks_def)
  have t1: "js_index demo_speech_tasks 1 = Some (demo_speech_tasks ! 1)"
    by (simp add: js_index_def demo_speech_tasks_def)
  have b: "blob_size demo_chunk \<noteq> 0" by (simp add: demo_chunk_def)
  have k: "(2::nat) < 3" by simp
  have u: "uploads init_recorder = []" "rec_delays init_recorder = []"
    "rec_currentIndex init_recorder = 0" "completions init_recorder = 0"
    by (simp_all add: init_recorder_def)
  have f: "\<forall>j < 2. fail_twice (length (uploads init_recorder) + j) ?p \<noteq> None"
    by (simp add: fail_twice_def u)
  have s: "fail_twice (length (uploads init_recorder) + 2) ?p = None"
    by (simp add: fail_twice_def u)
  have f1: "\<forall>j < 2. fail_twice (length (uploads init_recorder) + j) ?p1 \<noteq> None"
    by (simp add: fail_twice_def u)
  have s1: "fail_twice (length (uploads init_recorder) + 2) ?p1 = None"
    by (simp add: fail_twice_def u)
  have more: "int 0 < int (length demo_speech_tasks) - 1" by (simp add: demo_speech_tasks_def)
  have last: "\<not> int 1 < int (length demo_speech_tasks) - 1" by (simp add: demo_speech_tasks_def)
  note a = upload_success_advances [where onUpload = fail_twice and st = init_recorder
      and cElapsed = 0, OF t0 b k f s]
  note c = upload_success_advances [where onUpload = fail_twice and st = init_recorder
      and cElapsed = 0, OF t1 b k f1 s1]
  have 1: "length (uploads (handleDataAvailable fail_twice demo_speech_tasks 0 0 demo_chunk init_recorder)) = 3"
    using a by (simp add: u)
  have 2: "rec_delays (handleDataAvailable fail_twice demo_speech_tasks 0 0 demo_chunk init_recorder) = [600, 600]"
    using a by (simp add: u numeral_2_eq_2)
  have 3: "chunksRef (handleDataAvailable fail_twice demo_speech_tasks 0 0 demo_chunk init_recorder) = []"
    using a by blast
  have 4: "rec_currentIndex (handleDataAvailable fail_twice demo_speech_tasks 0 0 demo_chunk init_recorder) = 1 \<and>
           elapsedMs (handleDataAvailable fail_twice demo_speech_tasks 0 0 demo_chunk init_recorder) = 0"
    using a more by (simp add: u)
  have 5: "completions (handleDataAvailable fail_twice demo_speech_tasks 1 0 demo_chunk init_recorder) = 1"
    using c last by (simp add: u)
  show ?thesis using 1 2 3 4 5 by simp
qed

lemma handle_attempts_bound:
  "length (uploads (handleDataAvailable f tasks cIndex cElapsed ev st)) \<le> length (uploads st) + 3"
proof (cases "js_index tasks cIndex")
  case None
  then show ?thesis by (simp add: handleDataAvailable_def)
next
  case (Some task)
  show ?thesis
  proof (cases "blob_size ev = 0")
    case True
    then show ?thesis using Some by (simp add: handleDataAvailable_def)
  next
    case False
    let ?st1 = "st\<lparr> chunksRef := chunksRef st @ [ev] \<rparr>"
    have "length (uploads (snd (upload_loop f (chunk_payload task cElapsed ev st) 0 Undefined ?st1)))
            \<le> length (uploads ?st1) + (3 - 0)"
      by (rule upload_bound)
    then show ?thesis
      unfolding handle_proceeds [OF Some False] by (simp add: Let_def)
  qed
qed

lemma upload_failure_keeps_task:
  assumes "js_index tasks cIndex = Some task" and "blob_size ev \<noteq> 0"
      and "f (length (uploads st)) (chunk_payload task cElapsed ev st) = Some e0"
      and "f (length (uploads st) + 1) (chunk_payload task cElapsed ev st) = Some e1"
      and "f (length (uploads st) + 2) (chunk_payload task cElapsed ev st) = Some e2"
      and "truthy e2"
  shows "handleDataAvailable f tasks cIndex cElapsed ev st =
           st\<lparr> chunksRef := chunksRef st @ [ev],
                uploads := uploads st @ replicate 3 (chunk_payload task cElapsed ev st),
                rec_delays := rec_delays st @ [600, 600, 600],
                rec_console := rec_console st @ [e2],
                rec_toasts := rec_toasts st @
                  [(''Upload failed'', ''Could not upload speech sample. Please try again.'')] \<rparr>"
proof -
  let ?p = "chunk_payload task cElapsed ev st"
  let ?st1 = "st\<lparr> chunksRef := chunksRef st @ [ev] \<rparr>"
  have a: "f (length (uploads ?st1)) ?p = Some e0" using assms(3) by simp
  have b: "f (length (uploads ?st1) + 1) ?p = Some e1" using assms(4) by simp
  have c: "f (length (uploads ?st1) + 2) ?p = Some e2" using assms(5) by simp
  note q = upload_three_failures [where f = f and st = ?st1 and p = ?p and e = Undefined,
      OF a b c]
  show ?thesis
    unfolding handle_proceeds [OF assms(1,2)] q using assms(6)
    by (simp add: Let_def numeral_3_eq_3)
qed

lemma upload_failure_falsy:
  assumes "js_index tasks cIndex = Some task" and "blob_size ev \<noteq> 0"
      and "f (length (uploads st)) (chunk_payload task cElapsed ev st) = Some e0"
      and "f (length (uploads st) + 1) (chunk_payload task cElapsed ev st) = Some e1"
      and "f (length (uploads st) + 2) (chunk_payload task cElapsed ev st) = Some e2"
      and "\<not> truthy e2" and "int cIndex < int (length tasks) - 1"
  shows "handleDataAvailable f tasks cIndex cElapsed ev st =
           st\<lparr> chunksRef := [],
                uploads := uploads st @ replicate 3 (chunk_payload task cElapsed ev st),
                rec_delays := rec_delays st @ [600, 600, 600],
                rec_currentIndex := rec_currentIndex st + 1,
                elapsedMs := 0 \<rparr>"
proof -
  let ?p = "chunk_payload task cElapsed ev st"
  let ?st1 = "st\<lparr> chunksRef := chunksRef st @ [ev] \<rparr>"
  have a: "f (length (uploads ?st1)) ?p = Some e0" using assms(3) by simp
  have b: "f (length (uploads ?st1) + 1) ?p = Some e1" using assms(4) by simp
  have c: "f (length (uploads ?st1) + 2) ?p = Some e2" using assms(5) by simp
  note q = upload_three_failures [where f = f and st = ?st1 and p = ?p and e = Undefined,
      OF a b c]
  show ?thesis
    unfolding handle_proceeds [OF assms(1,2)] q using assms(6,7)
    by (simp add: Let_def numeral_3_eq_3)
qed

lemma demo_task_0: "js_index demo_speech_tasks 0 = Some (demo_speech_tasks ! 0)"
  by (simp add: js_index_def demo_speech_tasks_def)

lemma demo_chunk_nonempty: "blob_size demo_chunk \<noteq> 0"
  by (simp add: demo_chunk_def)

lemma demo_more_tasks: "int 0 < int (length demo_speech_tasks) - 1"
  by (simp add: demo_speech_tasks_def)

lemma error_rejection_keeps_task:
  "handleDataAvailable reject_error demo_speech_tasks 0 0 demo_chunk init_recorder =
     init_recorder\<lparr> chunksRef := [demo_chunk],
       uploads := replicate 3 (chunk_payload (demo_speech_tasks ! 0) 0 demo_chunk init_recorder),
       rec_delays := [600, 600, 600],
       rec_console := [ErrorObj ''Request failed''],
       rec_toasts := [(''Upload failed'', ''Could not upload speech sample. Please try again.'')] \<rparr>"
proof -
  have t: "truthy (ErrorObj ''Request failed'')" by simp
  have r: "\<And>k. reject_error k (chunk_payload (demo_speech_tasks ! 0) 0 demo_chunk init_recorder)
             = Some (ErrorObj ''Request failed'')"
    by (simp add: reject_error_def)
  show ?thesis
    unfolding upload_failure_keeps_task [where f = reject_error and st = init_recorder
        and cElapsed = 0, OF demo_task_0 demo_chunk_nonempty r r r t]
    by (simp add: init_recorder_def)
qed

text \<open>
  C2. The handler never makes more than three upload attempts and awaits 600 ms after
  each failed one, but it decides whether the upload failed by the truthiness of the
  last value caught. For an upload function whose three attempts all reject without a
  reason (with \<open>undefined\<close>), on the first of two tasks: exactly three attempts are made
  and three delays awaited, nothing is logged and no notice is shown, the chunk buffer is
  emptied and the task index advances to the next task.
\<close>

theorem falsy_rejection_treated_as_success:
  "length (uploads (handleDataAvailable reject_undefined demo_speech_tasks 0 0 demo_chunk init_recorder)) = 3 \<and>
   rec_delays (handleDataAvailable reject_undefined demo_speech_tasks 0 0 demo_chunk init_recorder)
     = [600, 600, 600] \<and>
   rec_console (handleDataAvailable reject_undefined demo_speech_tasks 0 0 demo_chunk init_recorder) = [] \<and>
   rec_toasts (handleDataAvailable reject_undefined demo_speech_tasks 0 0 demo_chunk init_recorder) = [] \<and>
   chunksRef (handleDataAvailable reject_undefined demo_speech_tasks 0 0 demo_chunk init_recorder) = [] \<and>
   rec_currentIndex init_recorder = 0 \<and>
   rec_currentIndex (handleDataAvailable reject_undefined demo_speech_tasks 0 0 demo_chunk init_recorder) = 1"
proof -
  have t: "\<not> truthy Undefined" by simp
  have r: "\<And>k. reject_undefined k (chunk_payload (demo_speech_tasks ! 0) 0 demo_chunk init_recorder)
             = Some Undefined"
    by (simp add: reject_undefined_def)
  show ?thesis
    unfolding upload_failure_falsy [where f = reject_undefined and st = init_recorder
        and cElapsed = 0, OF demo_task_0 demo_chunk_nonempty r r r t demo_more_tasks]
    by (simp add: init_recorder_def)
qed

lemma handleSpeechUpload_resolves: "fst (handleSpeechUpload aid user outcome p st) = None"
  by (simp add: handleSpeechUpload_def Let_def)

lemma refused_upload_advances:
  "length (uploads (handleDataAvailable page_upload_refused demo_speech_tasks 0 0 demo_chunk init_recorder)) = 1 \<and>
   rec_delays (handleDataAvailable page_upload_refused demo_speech_tasks 0 0 demo_chunk init_recorder) = [] \<and>
   chunksRef (handleDataAvailable page_upload_refused demo_speech_tasks 0 0 demo_chunk init_recorder) = [] \<and>
   rec_currentIndex (handleDataAvailable page_upload_refused demo_speech_tasks 0 0 demo_chunk init_recorder) = 1"
proof -
  let ?p = "chunk_payload (demo_speech_tasks ! 0) 0 demo_chunk init_recorder"
  let ?st1 = "init_recorder\<lparr> chunksRef := chunksRef init_recorder @ [demo_chunk] \<rparr>"
  have r: "page_upload_refused (length (uploads ?st1)) ?p = None"
    by (simp add: page_upload_refused_def handleSpeechUpload_resolves)
  have i: "(0::nat) < 3" by simp
  note q = upload_success [where f = page_upload_refused and st = ?st1 and p = ?p
      and e = Undefined, OF i r]
  show ?thesis
    unfolding handle_proceeds [OF demo_task_0 demo_chunk_nonempty] q
    using demo_more_tasks by (simp add: Let_def init_recorder_def)
qed

section \<open>Properties: a recording with several chunks\<close>

lemma handle_first_try:
  assumes "js_index tasks cIndex = Some task" and "blob_size ev \<noteq> 0"
      and "f (length (uploads st)) (chunk_payload task cElapsed ev st) = None"
  shows "handleDataAvailable f tasks cIndex cElapsed ev st =
           (if int cIndex < int (length tasks) - 1
            then st\<lparr> uploads := uploads st @ [chunk_payload task cElapsed ev st],
                      chunksRef := [], rec_currentIndex := rec_currentIndex st + 1,
                      elapsedMs := 0 \<rparr>
            else st\<lparr> uploads := uploads st @ [chunk_payload task cElapsed ev st],
                      chunksRef := [], completions := completions st + 1 \<rparr>)"
proof -
  let ?p = "chunk_payload task cElapsed ev st"
  let ?st1 = "st\<lparr> chunksRef := chunksRef st @ [ev] \<rparr>"
  have r: "f (length (uploads ?st1)) ?p = None" using assms(3) by simp
  have i: "(0::nat) < 3" by simp
  note q = upload_success [where f = f and st = ?st1 and p = ?p and e = Undefined, OF i r]
  show ?thesis
    unfolding handle_proceeds [OF assms(1,2)] q by (simp add: Let_def)
qed

lemma fresh_callback_advances:
  assumes "js_index tasks (rec_currentIndex st) = Some task" and "blob_size ev \<noteq> 0"
      and "f (length (uploads st)) (chunk_payload task (elapsedMs st) ev st) = None"
  shows "(int (rec_currentIndex st) < int (length tasks) - 1 \<longrightarrow>
            rec_currentIndex (handleDataAvailable f tasks (rec_currentIndex st) (elapsedMs st) ev st)
              = rec_currentIndex st + 1 \<and>
            elapsedMs (handleDataAvailable f tasks (rec_currentIndex st) (elapsedMs st) ev st) = 0 \<and>
            completions (handleDataAvailable f tasks (rec_currentIndex st) (elapsedMs st) ev st)
              = completions st) \<and>
         (\<not> int (rec_currentIndex st) < int (length tasks) - 1 \<longrightarrow>
            completions (handleDataAvailable f tasks (rec_currentIndex st) (elapsedMs st) ev st)
              = completions st + 1 \<and>
            rec_currentIndex (handleDataAvailable f tasks (rec_currentIndex st) (elapsedMs st) ev st)
              = rec_currentIndex st)"
  unfolding handle_first_try [where f = f, OF assms] by simp

lemma handle_first_try_more:
  assumes "js_index tasks cIndex = Some task" and "blob_size ev \<noteq> 0"
      and "f (length (uploads st)) (chunk_payload task cElapsed ev st) = None"
      and "int cIndex < int (length tasks) - 1"
  shows "handleDataAvailable f tasks cIndex cElapsed ev st =
           st\<lparr> uploads := uploads st @ [chunk_payload task cElapsed ev st],
                chunksRef := [], rec_currentIndex := rec_currentIndex st + 1,
                elapsedMs := 0 \<rparr>"
  unfolding handle_first_try [where f = f, OF assms(1,2,3)] using assms(4) by simp

lemma recording_one:
  "recording f tasks st [DataAvailable ev] =
     handleDataAvailable f tasks (rec_currentIndex st) (elapsedMs st) ev (startRecording st)"
  by (simp add: recording_def recorder_step_def)

lemma recording_two:
  "recording f tasks st [DataAvailable ev, DataAvailable ev'] =
     handleDataAvailable f tasks (rec_currentIndex st) (elapsedMs st) ev'
       (recording f tasks st [DataAvailable ev])"
  by (simp add: recording_def recorder_step_def)

lemma start_init_recorder: "startRecording init_recorder = init_recorder"
  by (simp add: startRecording_def init_recorder_def)

lemma init_recorder_captured:
  "rec_currentIndex init_recorder = 0 \<and> elapsedMs init_recorder = 0"
  by (simp add: init_recorder_def)

lemma one_chunk_recording:
  "recording always_ok demo_speech_tasks init_recorder [DataAvailable demo_chunk] =
     init_recorder\<lparr> uploads := [chunk_payload (demo_speech_tasks ! 0) 0 demo_chunk init_recorder],
                    rec_currentIndex := 1 \<rparr>"
proof -
  have a: "always_ok (length (uploads init_recorder))
             (chunk_payload (demo_speech_tasks ! 0) 0 demo_chunk init_recorder) = None"
    by (simp add: always_ok_def)
  have "recording always_ok demo_speech_tasks init_recorder [DataAvailable demo_chunk] =
          handleDataAvailable always_ok demo_speech_tasks 0 0 demo_chunk init_recorder"
    unfolding recording_one start_init_recorder by (simp add: init_recorder_captured)
  also have "\<dots> = init_recorder\<lparr> uploads := uploads init_recorder @
                          [chunk_payload (demo_speech_tasks ! 0) 0 demo_chunk init_recorder],
                        chunksRef := [], rec_currentIndex := rec_currentIndex init_recorder + 1,
                        elapsedMs := 0 \<rparr>"
    by (rule handle_first_try_more [where f = always_ok and st = init_recorder and cElapsed = 0,
          OF demo_task_0 demo_chunk_nonempty a demo_more_tasks])
  also have "\<dots> = init_recorder\<lparr> uploads := [chunk_payload (demo_speech_tasks ! 0) 0 demo_chunk init_recorder],
                    rec_currentIndex := 1 \<rparr>"
    by (simp add: init_recorder_def)
  finally show ?thesis .
qed

text \<open>
  C6. The handler decides between advancing and completing on the task index its
  callback captured when the recording started, while it advances the recorder's own
  index. A recording of the first of two tasks that delivers two chunks, each uploaded
  successfully at the first attempt: after the first chunk the recorder is on the last
  task; the second upload, made for the first task again, succeeds, and then the index
  moves past the end of the task list and the completion callback has not been called.
\<close>

theorem stale_callback_skips_completion:
  "int (rec_currentIndex (recording always_ok demo_speech_tasks init_recorder
          [DataAvailable demo_chunk])) = int (length demo_speech_tasks) - 1 \<and>
   map up_taskId (uploads (recording always_ok demo_speech_tasks init_recorder
          [DataAvailable demo_chunk, DataAvailable demo_chunk]))
     = [''picture-description'', ''picture-description''] \<and>
   rec_currentIndex (recording always_ok demo_speech_tasks init_recorder
          [DataAvailable demo_chunk, DataAvailable demo_chunk]) = 2 \<and>
   completions (recording always_ok demo_speech_tasks init_recorder
          [DataAvailable demo_chunk, DataAvailable demo_chunk]) = 0 \<and>
   js_index demo_speech_tasks (rec_currentIndex (recording always_ok demo_speech_tasks init_recorder
          [DataAvailable demo_chunk, DataAvailable demo_chunk])) = None"
proof -
  let ?p = "chunk_payload (demo_speech_tasks ! 0) 0 demo_chunk init_recorder"
  let ?s1 = "init_recorder\<lparr> uploads := [?p], rec_currentIndex := 1 \<rparr>"
  let ?p2 = "chunk_payload (demo_speech_tasks ! 0) 0 demo_chunk ?s1"
  have c: "rec_currentIndex init_recorder = 0" "elapsedMs init_recorder = 0"
    by (simp_all add: init_recorder_def)
  have one: "recording always_ok demo_speech_tasks init_recorder [DataAvailable demo_chunk] = ?s1"
    by (rule one_chunk_recording)
  have a: "always_ok (length (uploads ?s1)) ?p2 = None" by (simp add: always_ok_def)
  have "recording always_ok demo_speech_tasks init_recorder
          [DataAvailable demo_chunk, DataAvailable demo_chunk] =
        handleDataAvailable always_ok demo_speech_tasks 0 0 demo_chunk ?s1"
    unfolding recording_two one by (simp add: init_recorder_captured)
  also have "\<dots> = ?s1\<lparr> uploads := uploads ?s1 @ [?p2], chunksRef := [],
              rec_currentIndex := rec_currentIndex ?s1 + 1, elapsedMs := 0 \<rparr>"
    by (rule handle_first_try_more [where f = always_ok and st = ?s1 and cElapsed = 0,
          OF demo_task_0 demo_chunk_nonempty a demo_more_tasks])
  finally have two: "recording always_ok demo_speech_tasks init_recorder
          [DataAvailable demo_chunk, DataAvailable demo_chunk] =
        ?s1\<lparr> uploads := uploads ?s1 @ [?p2], chunksRef := [],
              rec_currentIndex := rec_currentIndex ?s1 + 1, elapsedMs := 0 \<rparr>" .
  have ids: "up_taskId ?p = ''picture-description''" "up_taskId ?p2 = ''picture-description''"
    by (simp_all add: chunk_payload_def demo_speech_tasks_def)
  have 1: "int (rec_currentIndex (recording always_ok demo_speech_tasks init_recorder
          [DataAvailable demo_chunk])) = int (length demo_speech_tasks) - 1"
  proof -
    have "length demo_speech_tasks = 2" by (simp add: demo_speech_tasks_def)
    then show ?thesis unfolding one by simp
  qed
  have 2: "map up_taskId (uploads (recording always_ok demo_speech_tasks init_recorder
          [DataAvailable demo_chunk, DataAvailable demo_chunk]))
     = [''picture-description'', ''picture-description'']"
    unfolding two using ids by simp
  have 3: "rec_currentIndex (recording always_ok demo_speech_tasks init_recorder
          [DataAvailable demo_chunk, DataAvailable demo_chunk]) = 2"
    unfolding two by simp
  have 4: "completions (recording always_ok demo_speech_tasks init_recorder
          [DataAvailable demo_chunk, DataAvailable demo_chunk]) = 0"
    unfolding two by (simp add: init_recorder_def)
  have 5: "js_index demo_speech_tasks (rec_currentIndex (recording always_ok demo_speech_tasks
          init_recorder [DataAvailable demo_chunk, DataAvailable demo_chunk])) = None"
    unfolding 3 by (simp add: js_index_def demo_speech_tasks_def)
  show ?thesis by (intro conjI) (fact 1, fact 2, fact 3, fact 4, fact 5)
qed

end
